theory Spec2Isabelle
  imports Main "HOL-Library.Code_Target_Nat" "HOL-Library.AList" "HOL-Library.Multiset"
begin

section \<open>Characters, numerals and errors\<close>

text \<open>
  Go strings are byte sequences; they are modelled as \<^typ>\<open>string\<close>, one \<^typ>\<open>char\<close> per byte.
  The character classes below are those of the regular expression
  \<^verbatim>\<open>([A-Za-z]+)([0-9]+)\<close> of \<^verbatim>\<open>CellAddr\<close>; on bytes below 128 they coincide with
  \<^verbatim>\<open>unicode.IsLetter\<close> and \<^verbatim>\<open>unicode.IsDigit\<close>, which the tokenizer uses.
\<close>

definition isLetter :: "char \<Rightarrow> bool" where
  "isLetter c = (let n = (of_char c :: nat) in (65 \<le> n \<and> n \<le> 90) \<or> (97 \<le> n \<and> n \<le> 122))"

definition isDigit :: "char \<Rightarrow> bool" where
  "isDigit c = (let n = (of_char c :: nat) in 48 \<le> n \<and> n \<le> 57)"

definition isUpper :: "char \<Rightarrow> bool" where
  "isUpper c = (let n = (of_char c :: nat) in 65 \<le> n \<and> n \<le> 90)"

text \<open>\<^verbatim>\<open>strings.ToUpper\<close> on one byte of a letter run.\<close>

definition toUpper :: "char \<Rightarrow> char" where
  "toUpper c = (let n = (of_char c :: nat) in if 97 \<le> n \<and> n \<le> 122 then char_of (n - 32) else c)"

text \<open>The value of a decimal numeral, as \<^verbatim>\<open>strconv.ParseUint\<close> accumulates it.\<close>

definition digitVal :: "char \<Rightarrow> nat" where
  "digitVal c = of_char c - 48"

definition decVal :: "string \<Rightarrow> nat" where
  "decVal ds = foldl (\<lambda>n c. 10 * n + digitVal c) 0 ds"

text \<open>The decimal rendering of \<^verbatim>\<open>%d\<close>.\<close>

fun showNat :: "nat \<Rightarrow> string" where
  "showNat n = (if n < 10 then [char_of (48 + n)] else showNat (n div 10) @ [char_of (48 + n mod 10)])"

declare showNat.simps [simp del]

text \<open>
  Go errors are values carrying a message; \<^verbatim>\<open>io.EOF\<close> is a distinguished value that the
  parser compares against, so it is a constructor of its own.
\<close>

datatype error = EOF | Error string

fun errorString :: "error \<Rightarrow> string" where
  "errorString EOF = ''EOF''"
| "errorString (Error m) = m"

definition quoted :: "string \<Rightarrow> string" where
  "quoted s = [CHR 0x22] @ s @ [CHR 0x22]"

definition squoted :: "string \<Rightarrow> string" where
  "squoted s = [CHR 0x27] @ s @ [CHR 0x27]"

text \<open>
  \<^verbatim>\<open>strconv.ParseUint(s, 10, 32)\<close>: a non-empty run of decimal digits whose value fits in
  32 bits; anything else is a syntax error, a larger value a range error.
\<close>

definition ParseUint32 :: "string \<Rightarrow> error + nat" where
  "ParseUint32 s =
     (if s = [] \<or> \<not> list_all isDigit s
      then Inl (Error (''strconv.ParseUint: parsing '' @ quoted s @ '': invalid syntax''))
      else if decVal s < 2 ^ 32 then Inr (decVal s)
      else Inl (Error (''strconv.ParseUint: parsing '' @ quoted s @ '': value out of range'')))"

section \<open>Cell addresses (cell.go)\<close>

text \<open>
  The row is a \<^verbatim>\<open>uint32\<close>; it is modelled as a natural number below \<open>2 ^ 32\<close>, with the
  wrap-around written out where the code does arithmetic on it (\<^verbatim>\<open>row++\<close>).
\<close>

record CellAddress =
  col :: string
  row :: nat

definition maxColDigits :: nat where
  "maxColDigits = 2"

definition lastCol :: string where
  "lastCol = ''ZZ''"

text \<open>
  \<^verbatim>\<open>addrRE.FindStringSubmatch\<close> for \<^verbatim>\<open>([A-Za-z]+)([0-9]+)\<close>. The expression is not
  anchored: the match is the leftmost one, and both groups are greedy. A match starts at
  a position exactly when the maximal run of letters there is non-empty and is followed
  by a digit (a shorter run of letters is followed by a letter).
\<close>

definition addrRE_at :: "string \<Rightarrow> (string \<times> string) option" where
  "addrRE_at s =
     (let ls = takeWhile isLetter s; ds = takeWhile isDigit (dropWhile isLetter s)
      in if ls \<noteq> [] \<and> ds \<noteq> [] then Some (ls, ds) else None)"

fun addrRE_find :: "string \<Rightarrow> (string \<times> string) option" where
  "addrRE_find [] = None"
| "addrRE_find (c # cs) =
     (case addrRE_at (c # cs) of Some m \<Rightarrow> Some m | None \<Rightarrow> addrRE_find cs)"

definition CellAddr :: "string \<Rightarrow> error + CellAddress" where
  "CellAddr addr =
     (case addrRE_find addr of
        None \<Rightarrow> Inl (Error (''Invalid cell address '' @ squoted addr))
      | Some (letters, rowstr) \<Rightarrow>
          (let colstr = map toUpper letters in
           if length colstr > maxColDigits
           then Inl (Error (''Invalid cell address '' @ squoted addr @ '': Column address too big''))
           else (case ParseUint32 rowstr of
                   Inl err \<Rightarrow>
                     Inl (Error (''Invalid cell address '' @ squoted addr @ '': '' @ errorString err))
                 | Inr n \<Rightarrow> Inr \<lparr>col = colstr, row = n\<rparr>)))"

text \<open>\<^verbatim>\<open>LessCol\<close>: shorter columns first, then byte by byte; the row is ignored.\<close>

fun LessCol_loop :: "string \<Rightarrow> string \<Rightarrow> bool" where
  "LessCol_loop (x # xs) (y # ys) =
     (if (of_char x :: nat) < of_char y then True
      else if (of_char x :: nat) > of_char y then False
      else LessCol_loop xs ys)"
| "LessCol_loop _ _ = False"

definition LessCol :: "CellAddress \<Rightarrow> CellAddress \<Rightarrow> bool" where
  "LessCol ca ca2 =
     (if length (col ca) < length (col ca2) then True
      else if length (col ca) > length (col ca2) then False
      else LessCol_loop (col ca) (col ca2))"

definition LEQCol :: "CellAddress \<Rightarrow> CellAddress \<Rightarrow> bool" where
  "LEQCol ca ca2 = (if col ca = col ca2 then True else LessCol ca ca2)"

text \<open>
  The loop of \<^verbatim>\<open>NextCol\<close> over \<^verbatim>\<open>runes\<close> with index \<^verbatim>\<open>activeCol\<close> (entered only when
  \<^verbatim>\<open>activeCol >= 0\<close>, that is for a non-empty column).
\<close>

fun NextCol_loop :: "string \<Rightarrow> nat \<Rightarrow> string" where
  "NextCol_loop runes activeCol =
     (if runes ! activeCol = CHR ''Z''
      then (let runes' = runes[activeCol := CHR ''A''] in
            if activeCol = 0 then CHR ''A'' # runes'
            else NextCol_loop runes' (activeCol - 1))
      else runes[activeCol := char_of ((of_char (runes ! activeCol) :: nat) + 1)])"

declare NextCol_loop.simps [simp del]

definition NextCol :: "CellAddress \<Rightarrow> error + CellAddress" where
  "NextCol ca =
     (if col ca = lastCol then Inl (Error ''No more columns.'')
      else Inr (ca\<lparr>col := (if col ca = [] then [] else NextCol_loop (col ca) (length (col ca) - 1))\<rparr>))"

text \<open>\<^verbatim>\<open>String\<close>: \<^verbatim>\<open>fmt.Sprintf("%s%d", ca.col, ca.row)\<close>.\<close>

definition addrString :: "CellAddress \<Rightarrow> string" where
  "addrString ca = col ca @ showNat (row ca)"

subsection \<open>Column enumeration and ordering\<close>

text \<open>A column as \<^verbatim>\<open>CellAddr\<close> produces it: one or two upper-case letters.\<close>

definition validCol :: "string \<Rightarrow> bool" where
  "validCol c = ((length c = 1 \<or> length c = 2) \<and> list_all isUpper c)"

text \<open>The position of a column in the enumeration A, B, ..., Z, AA, AB, ..., ZZ.\<close>

fun colIndex :: "string \<Rightarrow> nat" where
  "colIndex [a] = of_char a - 65"
| "colIndex [a, b] = 26 + 26 * (of_char a - 65) + (of_char b - 65)"
| "colIndex _ = 0"

text \<open>\<^verbatim>\<open>NextCol\<close> applied \<open>n\<close> times, stopping at the first error.\<close>

fun iterNextCol :: "nat \<Rightarrow> CellAddress \<Rightarrow> error + CellAddress" where
  "iterNextCol 0 a = Inr a"
| "iterNextCol (Suc n) a = (case iterNextCol n a of Inl e \<Rightarrow> Inl e | Inr b \<Rightarrow> NextCol b)"

lemma Z_iff: "c = CHR ''Z'' \<longleftrightarrow> (of_char c :: nat) = 90"
proof -
  have "(of_char (CHR ''Z'') :: nat) = 90" by simp
  then show ?thesis by (metis of_char_eq_iff)
qed

lemma A_val: "(of_char (CHR ''A'') :: nat) = 65" by simp

lemma succ_char: "(of_char c :: nat) < 255 \<Longrightarrow> (of_char (char_of ((of_char c :: nat) + 1)) :: nat) = of_char c + 1"
  by simp

lemma NextCol_loop_1:
  "NextCol_loop [a] 0 = (if a = CHR ''Z'' then ''AA'' else [char_of ((of_char a :: nat) + 1)])"
  by (simp add: NextCol_loop.simps)

lemma NextCol_loop_2:
  "NextCol_loop [a, b] (Suc 0) =
     (if b = CHR ''Z'' then (if a = CHR ''Z'' then ''AAA'' else [char_of ((of_char a :: nat) + 1), CHR ''A''])
      else [a, char_of ((of_char b :: nat) + 1)])"
  by (simp add: NextCol_loop.simps)

lemma validCol_cases:
  assumes "validCol c"
  obtains a where "c = [a]" "isUpper a" | a b where "c = [a, b]" "isUpper a" "isUpper b"
proof -
  from assms have "length c = 1 \<or> length c = 2" and u: "list_all isUpper c" by (auto simp: validCol_def)
  from this(1) show ?thesis
  proof
    assume "length c = 1"
    then obtain a where "c = [a]" by (cases c) auto
    with u that show ?thesis by simp
  next
    assume "length c = 2"
    then obtain a b where "c = [a, b]" by (cases c; cases "tl c") auto
    with u that show ?thesis by simp
  qed
qed

lemma NextCol_valid:
  assumes "validCol c" "c \<noteq> ''ZZ''"
  shows "\<exists>c'. NextCol \<lparr>col = c, row = r\<rparr> = Inr \<lparr>col = c', row = r\<rparr> \<and> validCol c' \<and> colIndex c' = colIndex c + 1"
  using assms(1)
proof (cases rule: validCol_cases)
  case (1 a)
  then show ?thesis
    by (auto simp: NextCol_def lastCol_def NextCol_loop_1 validCol_def isUpper_def Z_iff Let_def)
next
  case (2 a b)
  with assms(2) have nz: "\<not> (a = CHR ''Z'' \<and> b = CHR ''Z'')" by auto
  with 2 show ?thesis
    by (auto simp: NextCol_def lastCol_def NextCol_loop_2 validCol_def isUpper_def Z_iff Let_def)
qed

lemma LessCol_index:
  assumes "validCol (col a)" "validCol (col b)"
  shows "LessCol a b \<longleftrightarrow> colIndex (col a) < colIndex (col b)"
  using assms(1)
proof (cases rule: validCol_cases)
  case A: (1 x)
  from assms(2) show ?thesis
  proof (cases rule: validCol_cases)
    case (1 y)
    with A show ?thesis by (auto simp: LessCol_def isUpper_def Let_def)
  next
    case (2 y z)
    with A show ?thesis by (auto simp: LessCol_def isUpper_def Let_def)
  qed
next
  case A: (2 x x')
  from assms(2) show ?thesis
  proof (cases rule: validCol_cases)
    case (1 y)
    with A show ?thesis by (auto simp: LessCol_def isUpper_def Let_def)
  next
    case (2 y z)
    with A show ?thesis by (auto simp: LessCol_def isUpper_def Let_def)
  qed
qed


lemma colIndex_single: "validCol c \<Longrightarrow> colIndex c < 26 \<Longrightarrow> c = [char_of (65 + colIndex c)]"
  by (erule validCol_cases) (auto simp: isUpper_def Let_def)

lemma colIndex_double: "validCol c \<Longrightarrow> 26 \<le> colIndex c \<Longrightarrow> \<exists>x y. c = [x, y]"
  by (erule validCol_cases) (auto simp: isUpper_def Let_def)

lemma colIndex_le: "validCol c \<Longrightarrow> colIndex c \<le> 701"
  by (erule validCol_cases) (auto simp: isUpper_def Let_def)

lemma colIndex_last: "validCol c \<Longrightarrow> colIndex c = 701 \<Longrightarrow> c = ''ZZ''"
  by (erule validCol_cases) (auto simp: isUpper_def Let_def Z_iff)

lemma colIndex_ZZ: "colIndex ''ZZ'' = 701" by simp

lemma iterNextCol_index:
  "n \<le> 701 \<Longrightarrow> \<exists>c. iterNextCol n \<lparr>col = ''A'', row = r\<rparr> = Inr \<lparr>col = c, row = r\<rparr> \<and> validCol c \<and> colIndex c = n"
proof (induction n)
  case 0
  show ?case by (simp add: validCol_def isUpper_def)
next
  case (Suc n)
  then obtain c where c: "iterNextCol n \<lparr>col = ''A'', row = r\<rparr> = Inr \<lparr>col = c, row = r\<rparr>"
    "validCol c" "colIndex c = n" by auto
  with Suc.prems have "c \<noteq> ''ZZ''" by auto
  from NextCol_valid[OF c(2) this, of r] c show ?case by auto
qed

lemma iterNextCol_stop:
  "701 < n \<Longrightarrow> \<exists>e. iterNextCol n \<lparr>col = ''A'', row = r\<rparr> = Inl e"
proof (induction n)
  case 0
  then show ?case by simp
next
  case (Suc n)
  show ?case
  proof (cases "n = 701")
    case True
    from iterNextCol_index[of 701 r] obtain c where
      c: "iterNextCol 701 \<lparr>col = ''A'', row = r\<rparr> = Inr \<lparr>col = c, row = r\<rparr>" "validCol c" "colIndex c = 701"
      by auto
    then have "c = ''ZZ''" by (simp add: colIndex_last)
    with c True have "iterNextCol n \<lparr>col = ''A'', row = r\<rparr> = Inr \<lparr>col = ''ZZ'', row = r\<rparr>" by simp
    then show ?thesis by (simp add: NextCol_def lastCol_def)
  next
    case False
    with Suc obtain e where "iterNextCol n \<lparr>col = ''A'', row = r\<rparr> = Inl e" by auto
    then show ?thesis by simp
  qed
qed

lemma iterNextCol_Inr:
  assumes "iterNextCol n \<lparr>col = ''A'', row = r\<rparr> = Inr a"
  shows "n \<le> 701 \<and> validCol (col a) \<and> colIndex (col a) = n"
proof -
  have le: "n \<le> 701"
  proof (rule ccontr)
    assume "\<not> n \<le> 701"
    then have "701 < n" by simp
    from iterNextCol_stop[OF this, of r] assms show False by auto
  qed
  from iterNextCol_index[OF le, of r] assms le show ?thesis by auto
qed

lemma LessCol_loop_irrefl: "\<not> LessCol_loop xs xs"
  by (induction xs) auto

lemma LessCol_loop_trans:
  "length xs = length ys \<Longrightarrow> length ys = length zs \<Longrightarrow>
   LessCol_loop xs ys \<Longrightarrow> LessCol_loop ys zs \<Longrightarrow> LessCol_loop xs zs"
  by (induction xs ys zs rule: list_induct3) (auto split: if_splits)

lemma LessCol_loop_total:
  "length xs = length ys \<Longrightarrow> \<not> LessCol_loop xs ys \<Longrightarrow> \<not> LessCol_loop ys xs \<Longrightarrow> xs = ys"
  by (induction xs ys rule: list_induct2) (auto split: if_splits)

lemma LessCol_loop_lex:
  "length xs = length ys \<Longrightarrow>
   LessCol_loop xs ys \<longleftrightarrow>
     (\<exists>i<length xs. take i xs = take i ys \<and> (of_char (xs ! i) :: nat) < of_char (ys ! i))"
proof (induction xs ys rule: list_induct2)
  case Nil
  show ?case by simp
next
  case (Cons x xs y ys)
  show ?case
  proof (cases "(of_char x :: nat) < of_char y")
    case True
    then have "take 0 (x # xs) = take 0 (y # ys) \<and> (of_char ((x # xs) ! 0) :: nat) < of_char ((y # ys) ! 0)"
      by simp
    then have "\<exists>i<length (x # xs). take i (x # xs) = take i (y # ys) \<and> (of_char ((x # xs) ! i) :: nat) < of_char ((y # ys) ! i)"
      by (intro exI[of _ 0]) simp
    with True show ?thesis by simp
  next
    case False
    show ?thesis
    proof (cases "(of_char x :: nat) > of_char y")
      case True
      have "\<not> (\<exists>i<length (x # xs). take i (x # xs) = take i (y # ys) \<and> (of_char ((x # xs) ! i) :: nat) < of_char ((y # ys) ! i))"
      proof
        assume "\<exists>i<length (x # xs). take i (x # xs) = take i (y # ys) \<and> (of_char ((x # xs) ! i) :: nat) < of_char ((y # ys) ! i)"
        then obtain i where i: "take i (x # xs) = take i (y # ys)" "(of_char ((x # xs) ! i) :: nat) < of_char ((y # ys) ! i)" by auto
        with True show False by (cases i) auto
      qed
      with True False show ?thesis by simp
    next
      case F2: False
      with False have xy: "x = y" by (metis of_char_eq_iff linorder_neqE_nat)
      have "(\<exists>i<length (x # xs). take i (x # xs) = take i (y # ys) \<and> (of_char ((x # xs) ! i) :: nat) < of_char ((y # ys) ! i))
            \<longleftrightarrow> (\<exists>i<length xs. take i xs = take i ys \<and> (of_char (xs ! i) :: nat) < of_char (ys ! i))"
        (is "?L \<longleftrightarrow> ?R")
      proof
        assume ?L
        then obtain i where i: "i < length (x # xs)" "take i (x # xs) = take i (y # ys)"
          "(of_char ((x # xs) ! i) :: nat) < of_char ((y # ys) ! i)" by auto
        with xy obtain j where "i = Suc j" by (cases i) auto
        with i show ?R by (intro exI[of _ j]) auto
      next
        assume ?R
        then obtain j where "j < length xs" "take j xs = take j ys" "(of_char (xs ! j) :: nat) < of_char (ys ! j)" by auto
        with xy show ?L by (intro exI[of _ "Suc j"]) auto
      qed
      with Cons.IH xy show ?thesis by simp
    qed
  qed
qed


definition upperCol :: "CellAddress \<Rightarrow> bool" where
  "upperCol a = list_all isUpper (col a)"

text \<open>
  Claim C9. \<^verbatim>\<open>NextCol\<close> of column Z is column AA; of column ZZ it is an error; iterating
  \<^verbatim>\<open>NextCol\<close> from column A visits the 26 single-letter columns A..Z first (steps 0..25)
  and two-letter columns from then on (steps 26..701); the enumeration is strictly
  increasing for \<^verbatim>\<open>LessCol\<close>; and on columns of upper-case letters \<^verbatim>\<open>LessCol\<close> is a strict
  weak order (irreflexive, transitive, incomparable columns are equal) under which a shorter
  column precedes a longer one and columns of equal length compare letter by letter.
\<close>

theorem NextCol_LessCol_order:
  "NextCol \<lparr>col = ''Z'', row = r\<rparr> = Inr \<lparr>col = ''AA'', row = r\<rparr> \<and>
   NextCol \<lparr>col = ''ZZ'', row = r\<rparr> = Inl (Error ''No more columns.'') \<and>
   (\<forall>n<26. iterNextCol n \<lparr>col = ''A'', row = r\<rparr> = Inr \<lparr>col = [char_of (65 + n)], row = r\<rparr>) \<and>
   (\<forall>n. 26 \<le> n \<and> n \<le> 701 \<longrightarrow>
        (\<exists>x y. iterNextCol n \<lparr>col = ''A'', row = r\<rparr> = Inr \<lparr>col = [x, y], row = r\<rparr>)) \<and>
   (\<forall>m n a b. m < n \<and> iterNextCol m \<lparr>col = ''A'', row = r\<rparr> = Inr a \<and>
        iterNextCol n \<lparr>col = ''A'', row = r\<rparr> = Inr b \<longrightarrow> LessCol a b \<and> \<not> LessCol b a) \<and>
   (\<forall>a b c. upperCol a \<and> upperCol b \<and> upperCol c \<longrightarrow>
        \<not> LessCol a a \<and>
        (LessCol a b \<and> LessCol b c \<longrightarrow> LessCol a c) \<and>
        (\<not> LessCol a b \<and> \<not> LessCol b a \<longrightarrow> col a = col b) \<and>
        (length (col a) < length (col b) \<longrightarrow> LessCol a b \<and> \<not> LessCol b a) \<and>
        (length (col a) = length (col b) \<longrightarrow>
           (LessCol a b \<longleftrightarrow>
              (\<exists>i<length (col a). take i (col a) = take i (col b) \<and>
                   (of_char (col a ! i) :: nat) < of_char (col b ! i)))))"
proof (intro conjI allI impI)
  show "NextCol \<lparr>col = ''Z'', row = r\<rparr> = Inr \<lparr>col = ''AA'', row = r\<rparr>"
    by (simp add: NextCol_def lastCol_def NextCol_loop.simps)
  show "NextCol \<lparr>col = ''ZZ'', row = r\<rparr> = Inl (Error ''No more columns.'')"
    by (simp add: NextCol_def lastCol_def)
next
  fix n :: nat assume n: "n < 26"
  then have "n \<le> 701" by simp
  from iterNextCol_index[OF this, of r] obtain c where
    c: "iterNextCol n \<lparr>col = ''A'', row = r\<rparr> = Inr \<lparr>col = c, row = r\<rparr>" "validCol c" "colIndex c = n"
    by auto
  with n colIndex_single[of c] show
    "iterNextCol n \<lparr>col = ''A'', row = r\<rparr> = Inr \<lparr>col = [char_of (65 + n)], row = r\<rparr>"
    by simp
next
  fix n :: nat assume n: "26 \<le> n \<and> n \<le> 701"
  then have "n \<le> 701" by simp
  from iterNextCol_index[OF this, of r] obtain c where
    c: "iterNextCol n \<lparr>col = ''A'', row = r\<rparr> = Inr \<lparr>col = c, row = r\<rparr>" "validCol c" "colIndex c = n"
    by auto
  with n colIndex_double[of c] show
    "\<exists>x y. iterNextCol n \<lparr>col = ''A'', row = r\<rparr> = Inr \<lparr>col = [x, y], row = r\<rparr>"
    by auto
next
  fix m n :: nat and a b
  assume h: "m < n \<and> iterNextCol m \<lparr>col = ''A'', row = r\<rparr> = Inr a \<and>
        iterNextCol n \<lparr>col = ''A'', row = r\<rparr> = Inr b"
  then have A: "validCol (col a)" "colIndex (col a) = m" and B: "validCol (col b)" "colIndex (col b) = n"
    using iterNextCol_Inr by blast+
  with h show "LessCol a b" by (simp add: LessCol_index)
  from A B h show "\<not> LessCol b a" by (simp add: LessCol_index)
next
  fix a b c :: CellAddress
  show "\<not> LessCol a a" by (simp add: LessCol_def LessCol_loop_irrefl)
  {
    assume "LessCol a b \<and> LessCol b c"
    then show "LessCol a c"
      using LessCol_loop_trans[of "col a" "col b" "col c"]
      by (auto simp: LessCol_def split: if_splits)
  }
  {
    assume "\<not> LessCol a b \<and> \<not> LessCol b a"
    then show "col a = col b"
      by (auto simp: LessCol_def split: if_splits intro: LessCol_loop_total)
  }
  {
    assume "length (col a) < length (col b)"
    then show "LessCol a b" "\<not> LessCol b a" by (simp_all add: LessCol_def)
  }
  {
    assume "length (col a) = length (col b)"
    then show "LessCol a b \<longleftrightarrow>
              (\<exists>i<length (col a). take i (col a) = take i (col b) \<and>
                   (of_char (col a ! i) :: nat) < of_char (col b ! i))"
      by (simp add: LessCol_def LessCol_loop_lex)
  }
qed

theorem NextCol_LessCol_order_witness:
  "iterNextCol 25 \<lparr>col = ''A'', row = 7\<rparr> = Inr \<lparr>col = ''Z'', row = 7\<rparr> \<and>
   (\<exists>x y. iterNextCol 26 \<lparr>col = ''A'', row = 7\<rparr> = Inr \<lparr>col = [x, y], row = 7\<rparr>) \<and>
   upperCol \<lparr>col = ''B'', row = 1\<rparr> \<and> upperCol \<lparr>col = ''Z'', row = 1\<rparr> \<and> upperCol \<lparr>col = ''AZ'', row = 3\<rparr> \<and>
   LessCol \<lparr>col = ''B'', row = 1\<rparr> \<lparr>col = ''Z'', row = 1\<rparr> \<and>
   LessCol \<lparr>col = ''Z'', row = 1\<rparr> \<lparr>col = ''AZ'', row = 3\<rparr> \<and>
   LessCol \<lparr>col = ''B'', row = 1\<rparr> \<lparr>col = ''AZ'', row = 3\<rparr>"
proof -
  have u: "upperCol \<lparr>col = ''B'', row = 1\<rparr> \<and> upperCol \<lparr>col = ''Z'', row = 1\<rparr> \<and> upperCol \<lparr>col = ''AZ'', row = 3\<rparr>"
    by (simp add: upperCol_def isUpper_def)
  have l: "LessCol \<lparr>col = ''B'', row = 1\<rparr> \<lparr>col = ''Z'', row = 1\<rparr> \<and>
           LessCol \<lparr>col = ''Z'', row = 1\<rparr> \<lparr>col = ''AZ'', row = 3\<rparr>"
    by (simp add: LessCol_def)
  note t = NextCol_LessCol_order[of 7]
  from t have i25: "iterNextCol 25 \<lparr>col = ''A'', row = 7\<rparr> = Inr \<lparr>col = [char_of (65 + (25::nat))], row = 7\<rparr>"
    by simp
  have z: "[char_of (65 + (25::nat))] = ''Z''" by code_simp
  from t have i26: "\<exists>x y. iterNextCol 26 \<lparr>col = ''A'', row = 7\<rparr> = Inr \<lparr>col = [x, y], row = 7\<rparr>"
    by simp
  from t u l have "LessCol \<lparr>col = ''B'', row = 1\<rparr> \<lparr>col = ''AZ'', row = 3\<rparr>" by blast
  with u l i25 i26 z show ?thesis by simp
qed

subsection \<open>Which strings \<^verbatim>\<open>CellAddr\<close> accepts\<close>

text \<open>
  The address format as the specification words it: the whole string is one or two
  letters followed by a decimal row numeral that is at least 1 and fits in 32 bits.
\<close>

definition spec_valid_address :: "string \<Rightarrow> bool" where
  "spec_valid_address s =
     (let ls = takeWhile isLetter s; ds = dropWhile isLetter s
      in 1 \<le> length ls \<and> length ls \<le> 2 \<and> ds \<noteq> [] \<and> list_all isDigit ds \<and>
         1 \<le> decVal ds \<and> decVal ds < 2 ^ 32)"

text \<open>Some letter of the string is directly followed by a digit.\<close>

fun letterThenDigit :: "string \<Rightarrow> bool" where
  "letterThenDigit (a # b # cs) = ((isLetter a \<and> isDigit b) \<or> letterThenDigit (b # cs))"
| "letterThenDigit _ = False"

lemma digit_not_letter: "isDigit c \<Longrightarrow> \<not> isLetter c"
  by (auto simp: isDigit_def isLetter_def Let_def)

lemma takeWhile_letters_digits:
  assumes "list_all isLetter ls" "ds \<noteq> []" "list_all isDigit ds"
  shows "takeWhile isLetter (ls @ ds) = ls" "dropWhile isLetter (ls @ ds) = ds"
proof -
  from assms(2,3) obtain d ds' where ds: "ds = d # ds'" "isDigit d" by (cases ds) auto
  then have nl: "\<not> isLetter d" by (simp add: digit_not_letter)
  from assms(1) have all: "\<And>x. x \<in> set ls \<Longrightarrow> isLetter x" by (simp add: list_all_iff)
  from all ds nl show "takeWhile isLetter (ls @ ds) = ls" by (simp add: takeWhile_append2)
  from all ds nl show "dropWhile isLetter (ls @ ds) = ds" by (simp add: dropWhile_append2)
qed

lemma addrRE_at_whole:
  assumes "ls \<noteq> []" "list_all isLetter ls" "ds \<noteq> []" "list_all isDigit ds"
  shows "addrRE_at (ls @ ds) = Some (ls, ds)"
proof -
  from assms(4) have td: "takeWhile isDigit ds = ds" by (simp add: list_all_iff takeWhile_eq_all_conv)
  show ?thesis
    using assms(1,3) by (simp add: addrRE_at_def Let_def td takeWhile_letters_digits[OF assms(2,3,4)])
qed

lemma addrRE_find_whole:
  assumes "ls \<noteq> []" "list_all isLetter ls" "ds \<noteq> []" "list_all isDigit ds"
  shows "addrRE_find (ls @ ds) = Some (ls, ds)"
proof -
  from assms(1) obtain c cs where "ls @ ds = c # cs" by (cases ls) auto
  with addrRE_at_whole[OF assms] show ?thesis by (metis addrRE_find.simps(2) option.simps(5))
qed

lemma addrRE_at_Cons_letter:
  "isLetter a \<Longrightarrow> isLetter b \<Longrightarrow> addrRE_at (a # b # cs) \<noteq> None \<Longrightarrow> addrRE_at (b # cs) \<noteq> None"
  by (auto simp: addrRE_at_def Let_def split: if_splits)

lemma addrRE_find_iff: "addrRE_find s = None \<longleftrightarrow> \<not> letterThenDigit s"
proof (induction s rule: letterThenDigit.induct)
  case (1 a b cs)
  show ?case
  proof (cases "isLetter a \<and> isDigit b")
    case True
    then have "addrRE_at (a # b # cs) \<noteq> None"
      by (auto simp: addrRE_at_def Let_def digit_not_letter)
    with True show ?thesis by (auto split: option.splits)
  next
    case False
    show ?thesis
    proof (cases "addrRE_at (a # b # cs)")
      case None
      then have "addrRE_find (a # b # cs) = addrRE_find (b # cs)" by simp
      with False 1 show ?thesis by (auto simp del: addrRE_find.simps)
    next
      case (Some m)
      with False have "isLetter a \<and> isLetter b"
        by (auto simp: addrRE_at_def Let_def split: if_splits)
      with Some addrRE_at_Cons_letter[of a b cs] have "addrRE_at (b # cs) \<noteq> None" by simp
      then have "addrRE_find (b # cs) \<noteq> None" by (auto split: option.splits)
      moreover from Some have "addrRE_find (a # b # cs) \<noteq> None" by simp
      ultimately show ?thesis using 1 by (auto simp del: addrRE_find.simps)
    qed
  qed
qed (simp_all add: addrRE_at_def Let_def split: option.splits)

lemma toUpper_isUpper: "isLetter c \<Longrightarrow> isUpper (toUpper c)"
  by (auto simp: isLetter_def isUpper_def toUpper_def Let_def)

lemma ParseUint32_digits:
  "ds \<noteq> [] \<Longrightarrow> list_all isDigit ds \<Longrightarrow>
   ParseUint32 ds = (if decVal ds < 2 ^ 32 then Inr (decVal ds)
      else Inl (Error (''strconv.ParseUint: parsing '' @ quoted ds @ '': value out of range'')))"
  by (simp add: ParseUint32_def)

text \<open>
  Claim C5, as the code has it. For a string that consists wholly of one or more letters
  followed by one or more decimal digits, \<^verbatim>\<open>CellAddr\<close> returns an address exactly when
  there are at most two letters and the numeral fits in 32 bits (a zero row is accepted,
  there is no lower bound on the row); the address has the letters in upper case and the
  numeral's value as its row. Otherwise such a string gets an error, and so does every
  string in which no letter is directly followed by a digit. (Strings with other
  characters around a letters-then-digits match are not covered: the regular expression
  is not anchored.)
\<close>

theorem CellAddr_whole_string:
  "(ls \<noteq> [] \<and> list_all isLetter ls \<and> ds \<noteq> [] \<and> list_all isDigit ds \<longrightarrow>
      (length ls \<le> 2 \<and> decVal ds < 2 ^ 32 \<longrightarrow>
         CellAddr (ls @ ds) = Inr \<lparr>col = map toUpper ls, row = decVal ds\<rparr> \<and>
         list_all isUpper (map toUpper ls)) \<and>
      (\<not> (length ls \<le> 2 \<and> decVal ds < 2 ^ 32) \<longrightarrow> (\<exists>e. CellAddr (ls @ ds) = Inl (Error e)))) \<and>
   (\<not> letterThenDigit s \<longrightarrow> (\<exists>e. CellAddr s = Inl (Error e)))"
proof (intro conjI impI)
  assume h: "ls \<noteq> [] \<and> list_all isLetter ls \<and> ds \<noteq> [] \<and> list_all isDigit ds"
  then have f: "addrRE_find (ls @ ds) = Some (ls, ds)" by (simp add: addrRE_find_whole)
  from h have p: "ParseUint32 ds = (if decVal ds < 2 ^ 32 then Inr (decVal ds)
      else Inl (Error (''strconv.ParseUint: parsing '' @ quoted ds @ '': value out of range'')))"
    by (simp add: ParseUint32_digits)
  {
    assume ok: "length ls \<le> 2 \<and> decVal ds < 2 ^ 32"
    with f p show "CellAddr (ls @ ds) = Inr \<lparr>col = map toUpper ls, row = decVal ds\<rparr>"
      by (simp add: CellAddr_def maxColDigits_def Let_def)
    from h show "list_all isUpper (map toUpper ls)"
      by (auto simp: list_all_iff toUpper_isUpper)
  }
  {
    assume "\<not> (length ls \<le> 2 \<and> decVal ds < 2 ^ 32)"
    with f p show "\<exists>e. CellAddr (ls @ ds) = Inl (Error e)"
      by (auto simp: CellAddr_def maxColDigits_def Let_def)
  }
next
  assume "\<not> letterThenDigit s"
  then have "addrRE_find s = None" using addrRE_find_iff[of s] by simp
  then show "\<exists>e. CellAddr s = Inl (Error e)" by (simp add: CellAddr_def)
qed



theorem CellAddr_whole_string_witness:
  "CellAddr ''zz200000000'' = Inr \<lparr>col = ''ZZ'', row = 200000000\<rparr> \<and>
   (\<exists>e. CellAddr ''AAA1'' = Inl (Error e)) \<and>
   (\<exists>e. CellAddr ''AA100000000000000'' = Inl (Error e)) \<and>
   (\<exists>e. CellAddr ''7 A-1'' = Inl (Error e))"
proof -
  have z: "list_all isLetter ''zz'' \<and> list_all isDigit ''200000000'' \<and> decVal ''200000000'' = 200000000
           \<and> map toUpper ''zz'' = ''ZZ''"
    by code_simp
  have a: "CellAddr ''zz200000000'' = Inr \<lparr>col = ''ZZ'', row = 200000000\<rparr>"
    using CellAddr_whole_string[of "''zz''" "''200000000''"] z by simp
  have b: "\<exists>e. CellAddr ''AAA1'' = Inl (Error e)"
    using CellAddr_whole_string[of "''AAA''" "''1''"] by (simp add: isLetter_def isDigit_def)
  have "list_all isLetter ''AA'' \<and> list_all isDigit ''100000000000000'' \<and> \<not> decVal ''100000000000000'' < 2 ^ 32"
    by code_simp
  then have c: "\<exists>e. CellAddr ''AA100000000000000'' = Inl (Error e)"
    using CellAddr_whole_string[of "''AA''" "''100000000000000''"] by simp
  have "\<not> letterThenDigit ''7 A-1''" by code_simp
  then have d: "\<exists>e. CellAddr ''7 A-1'' = Inl (Error e)"
    using CellAddr_whole_string[of _ _ "''7 A-1''"] by simp
  from a b c d show ?thesis by simp
qed

text \<open>
  The claim as the specification states it fails: row 0 is accepted, and so is a string
  with characters before and after the address.
\<close>

theorem CellAddr_whole_string_counterexample:
  "CellAddr ''A0'' = Inr \<lparr>col = ''A'', row = 0\<rparr> \<and> \<not> spec_valid_address ''A0'' \<and>
   CellAddr ''!a1!'' = Inr \<lparr>col = ''A'', row = 1\<rparr> \<and> \<not> spec_valid_address ''!a1!''"
  by code_simp

section \<open>The expression parser (parse.go)\<close>

datatype op = NONE | ADD | SUB | MUL | DIV | LP | RP | ID

text \<open>The numeric value of an \<^verbatim>\<open>op\<close> (\<^verbatim>\<open>iota\<close>), as \<^verbatim>\<open>%#v\<close> prints it.\<close>

fun opNum :: "op \<Rightarrow> nat" where
  "opNum NONE = 0"
| "opNum ADD = 1"
| "opNum SUB = 2"
| "opNum MUL = 3"
| "opNum DIV = 4"
| "opNum LP = 5"
| "opNum RP = 6"
| "opNum ID = 7"

record token =
  tok_op :: op
  tok_val :: string

definition noTok :: token where
  "noTok = \<lparr>tok_op = NONE, tok_val = []\<rparr>"

definition opTok :: "op \<Rightarrow> token" where
  "opTok k = \<lparr>tok_op = k, tok_val = []\<rparr>"

definition showToken :: "token \<Rightarrow> string" where
  "showToken t = ''sheet.token{op:'' @ showNat (opNum (tok_op t)) @ '', val:'' @ quoted (tok_val t) @ ''}''"

text \<open>
  An \<^verbatim>\<open>Expression\<close> node; the child pointers may be \<^verbatim>\<open>nil\<close>. The parser builds
  \<^verbatim>\<open>ID\<close> nodes without children and operator nodes with both.
\<close>

datatype Expression =
  Expression (e_op: op) (left: "Expression option") (right: "Expression option") (e_val: string)

definition idExpr :: "string \<Rightarrow> Expression" where
  "idExpr v = Expression ID None None v"

definition binExpr :: "op \<Rightarrow> Expression \<Rightarrow> Expression \<Rightarrow> Expression" where
  "binExpr k l r = Expression k (Some l) (Some r) []"

text \<open>
  The parser state: the unread input of the \<^verbatim>\<open>strings.Reader\<close> and the one-token
  lookahead \<^verbatim>\<open>look\<close> (empty when its \<^verbatim>\<open>op\<close> is \<^verbatim>\<open>NONE\<close>). The input is read one rune at
  a time; the model reads one byte at a time, which is the same on input below 128.
\<close>

record parser =
  reader :: string
  look :: token

definition unreadToken :: "parser \<Rightarrow> token \<Rightarrow> error option \<times> parser" where
  "unreadToken p tok =
     (if tok_op (look p) \<noteq> NONE then (Some (Error ''Cannot unread more than one token.''), p)
      else (None, p\<lparr>look := tok\<rparr>))"

text \<open>
  The identifier loop of \<^verbatim>\<open>nextTok\<close>: runes are appended while they are letters or digits;
  the first other rune is pushed back (\<^verbatim>\<open>UnreadRune\<close>), the end of input is not.
\<close>

fun idLoop :: "string \<Rightarrow> string \<Rightarrow> string \<times> string" where
  "idLoop rs [] = (rs, [])"
| "idLoop rs (rn # rest) =
     (if isLetter rn \<or> isDigit rn then idLoop (rs @ [rn]) rest else (rs, rn # rest))"

definition nextTok :: "parser \<Rightarrow> (error + token) \<times> parser" where
  "nextTok p =
     (if tok_op (look p) \<noteq> NONE then (Inr (look p), p\<lparr>look := noTok\<rparr>)
      else (case reader p of
              [] \<Rightarrow> (Inl EOF, p)
            | rn # rest \<Rightarrow>
                if rn = CHR ''-'' then (Inr (opTok SUB), p\<lparr>reader := rest\<rparr>)
                else if rn = CHR ''+'' then (Inr (opTok ADD), p\<lparr>reader := rest\<rparr>)
                else if rn = CHR ''*'' then (Inr (opTok MUL), p\<lparr>reader := rest\<rparr>)
                else if rn = CHR ''/'' then (Inr (opTok DIV), p\<lparr>reader := rest\<rparr>)
                else if rn = CHR ''('' then (Inr (opTok LP), p\<lparr>reader := rest\<rparr>)
                else if rn = CHR '')'' then (Inr (opTok RP), p\<lparr>reader := rest\<rparr>)
                else if \<not> (isLetter rn \<or> isDigit rn)
                then (Inl (Error (''Unexpected rune '' @ [rn])), p\<lparr>reader := rest\<rparr>)
                else (case idLoop [] (rn # rest) of
                        (rs, rest') \<Rightarrow> (Inr \<lparr>tok_op = ID, tok_val = rs\<rparr>, p\<lparr>reader := rest'\<rparr>))))"

definition expectTok :: "parser \<Rightarrow> token \<Rightarrow> error option \<times> parser" where
  "expectTok p t =
     (case nextTok p of
        (Inl err, p') \<Rightarrow> (Some err, p')
      | (Inr tok, p') \<Rightarrow>
          if tok \<noteq> t
          then (Some (Error (''Expected '' @ showToken t @ '', but have '' @ showToken tok)), p')
          else (None, p'))"

text \<open>
  The token a production looks at: \<^verbatim>\<open>nextTok\<close> returns the zero token together with an
  error, and \<^verbatim>\<open>parseMDEXP\<close> and \<^verbatim>\<open>parsePMSEXP\<close> go on with that token unless the error is
  \<^verbatim>\<open>io.EOF\<close>.
\<close>

fun tokOf :: "error + token \<Rightarrow> token" where
  "tokOf (Inr t) = t"
| "tokOf (Inl err) = noTok"

text \<open>
  The five mutually recursive productions. The first argument bounds the depth of the
  calls: \<open>None\<close> means that the bound was reached, not that parsing failed.
\<close>

fun parseSUBEXP :: "nat \<Rightarrow> parser \<Rightarrow> ((error + Expression) \<times> parser) option"
  and parseMDEXP :: "nat \<Rightarrow> Expression \<Rightarrow> parser \<Rightarrow> ((error + Expression) \<times> parser) option"
  and parseMDSEXP :: "nat \<Rightarrow> parser \<Rightarrow> ((error + Expression) \<times> parser) option"
  and parsePMSEXP :: "nat \<Rightarrow> Expression \<Rightarrow> parser \<Rightarrow> ((error + Expression) \<times> parser) option"
  and parseEXP :: "nat \<Rightarrow> parser \<Rightarrow> ((error + Expression) \<times> parser) option"
where
  "parseSUBEXP 0 p = None"
| "parseSUBEXP (Suc n) p =
     (case nextTok p of
        (Inl err, p1) \<Rightarrow> Some (Inl err, p1)
      | (Inr tok, p1) \<Rightarrow>
          if tok_op tok = LP then
            (case parseEXP n p1 of
               None \<Rightarrow> None
             | Some (Inl err, p2) \<Rightarrow> Some (Inl err, p2)
             | Some (Inr exp, p2) \<Rightarrow>
                 (case expectTok p2 (opTok RP) of
                    (Some err, p3) \<Rightarrow> Some (Inl err, p3)
                  | (None, p3) \<Rightarrow> Some (Inr exp, p3)))
          else if tok_op tok = ID then Some (Inr (idExpr (tok_val tok)), p1)
          else Some (Inl (Error (''Expected a SUBEXPR, but got token '' @ showToken tok)), p1))"
| "parseMDEXP 0 lft p = None"
| "parseMDEXP (Suc n) lft p =
     (case nextTok p of
        (Inl EOF, p1) \<Rightarrow> Some (Inr lft, p1)
      | (res, p1) \<Rightarrow>
          (let tok = tokOf res in
           if tok_op tok = MUL \<or> tok_op tok = DIV then
             (case parseSUBEXP n p1 of
                None \<Rightarrow> None
              | Some (Inl err, p2) \<Rightarrow> Some (Inl err, p2)
              | Some (Inr ex, p2) \<Rightarrow> parseMDEXP n (binExpr (tok_op tok) lft ex) p2)
           else (case unreadToken p1 tok of
                   (Some err, p2) \<Rightarrow> Some (Inl err, p2)
                 | (None, p2) \<Rightarrow> Some (Inr lft, p2))))"
| "parseMDSEXP 0 p = None"
| "parseMDSEXP (Suc n) p =
     (case parseSUBEXP n p of
        None \<Rightarrow> None
      | Some (Inl err, p1) \<Rightarrow> Some (Inl err, p1)
      | Some (Inr exp, p1) \<Rightarrow> parseMDEXP n exp p1)"
| "parsePMSEXP 0 lft p = None"
| "parsePMSEXP (Suc n) lft p =
     (case nextTok p of
        (Inl EOF, p1) \<Rightarrow> Some (Inr lft, p1)
      | (res, p1) \<Rightarrow>
          (let tok = tokOf res in
           if tok_op tok = ADD \<or> tok_op tok = SUB then
             (case parseMDSEXP n p1 of
                None \<Rightarrow> None
              | Some (Inl err, p2) \<Rightarrow> Some (Inl err, p2)
              | Some (Inr ex, p2) \<Rightarrow> parsePMSEXP n (binExpr (tok_op tok) lft ex) p2)
           else (case unreadToken p1 tok of
                   (Some err, p2) \<Rightarrow> Some (Inl err, p2)
                 | (None, p2) \<Rightarrow> Some (Inr lft, p2))))"
| "parseEXP 0 p = None"
| "parseEXP (Suc n) p =
     (case parseMDSEXP n p of
        None \<Rightarrow> None
      | Some (Inl err, p1) \<Rightarrow> Some (Inl err, p1)
      | Some (Inr exp, p1) \<Rightarrow> parsePMSEXP n exp p1)"

text \<open>
  \<^verbatim>\<open>expectStr\<close> reads \<^verbatim>\<open>len(s)\<close> bytes (fewer at the end of the input, none and
  \<^verbatim>\<open>io.EOF\<close> when the input is empty) and compares them with \<^verbatim>\<open>s\<close>.
\<close>

definition expectStr :: "string \<Rightarrow> string \<Rightarrow> error option \<times> string" where
  "expectStr rd s =
     (if rd = [] then (Some EOF, rd)
      else (let bs = take (length s) rd @ replicate (length s - length rd) (CHR 0x00) in
            (if s \<noteq> bs
             then Some (Error (''Expected '' @ s @ '', got '' @ bs @ [CHR 0x0A]))
             else None,
             drop (length s) rd)))"

text \<open>
  \<^verbatim>\<open>ParseExpression\<close> calls \<^verbatim>\<open>expectStr(r, "=")\<close> and drops its result; only the reader
  has moved. The depth bound given to \<^verbatim>\<open>parseEXP\<close> is never reached (lemma
  \<open>ParseExpression_total\<close> below).
\<close>

definition ParseExpression :: "string \<Rightarrow> (error + Expression) option" where
  "ParseExpression eqn =
     (case expectStr eqn ''='' of
        (_, rd) \<Rightarrow>
          (case parseEXP (3 * length eqn + 3) \<lparr>reader = rd, look = noTok\<rparr> of
             None \<Rightarrow> None
           | Some (Inl err, _) \<Rightarrow> Some (Inl err)
           | Some (Inr e, _) \<Rightarrow> Some (Inr e)))"

subsection \<open>The parser always returns\<close>

definition psize :: "parser \<Rightarrow> nat" where
  "psize p = length (reader p) + (if tok_op (look p) = NONE then 0 else 1)"

lemma idLoop_length: "idLoop rs xs = (rs', rest) \<Longrightarrow> length rest \<le> length xs"
  by (induction rs xs rule: idLoop.induct) (auto split: if_splits)

lemma idLoop_length_first:
  "isLetter rn \<or> isDigit rn \<Longrightarrow> idLoop rs (rn # xs) = (rs', rest) \<Longrightarrow> length rest \<le> length xs"
  using idLoop_length[of "rs @ [rn]" xs rs' rest] by simp

lemma nextTok_EOF: "nextTok p = (Inl EOF, p1) \<Longrightarrow> p1 = p"
  by (auto simp: nextTok_def split: if_splits list.splits prod.splits)

lemma nextTok_lt:
  assumes "nextTok p = (res, p1)" "res \<noteq> Inl EOF"
  shows "psize p1 < psize p \<and> tok_op (look p1) = NONE"
proof (cases "tok_op (look p) \<noteq> NONE")
  case True
  with assms show ?thesis by (auto simp: nextTok_def psize_def noTok_def)
next
  case False
  with assms obtain rn rest where rd: "reader p = rn # rest"
    by (cases "reader p") (auto simp: nextTok_def)
  show ?thesis
  proof (cases "isLetter rn \<or> isDigit rn")
    case True
    obtain rs rest' where il: "idLoop [] (rn # rest) = (rs, rest')" by (cases "idLoop [] (rn # rest)")
    from idLoop_length_first[OF True il] have "length rest' \<le> length rest" .
    with assms False rd il show ?thesis
      by (auto simp: nextTok_def psize_def split: if_splits)
  next
    case F2: False
    with assms False rd show ?thesis
      by (auto simp: nextTok_def psize_def split: if_splits)
  qed
qed

lemma nextTok_le: "nextTok p = (res, p1) \<Longrightarrow> psize p1 \<le> psize p"
  using nextTok_lt[of p res p1] nextTok_EOF[of p p1] by (cases "res = Inl EOF") auto

lemma expectTok_le: "expectTok p t = (r, p1) \<Longrightarrow> psize p1 \<le> psize p"
  by (auto simp: expectTok_def split: prod.splits sum.splits if_splits dest: nextTok_le)

lemma unreadToken_le:
  "tok_op (look p) = NONE \<Longrightarrow> \<exists>p2. unreadToken p tok = (None, p2) \<and> psize p2 \<le> psize p + 1"
  by (simp add: unreadToken_def psize_def)

lemma parse_total:
  "(\<forall>p. 3 * psize p + 1 \<le> n \<longrightarrow> (\<exists>res p'. parseSUBEXP n p = Some (res, p') \<and> psize p' \<le> psize p)) \<and>
   (\<forall>l p. 3 * psize p + 1 \<le> n \<longrightarrow> (\<exists>res p'. parseMDEXP n l p = Some (res, p') \<and> psize p' \<le> psize p)) \<and>
   (\<forall>p. 3 * psize p + 2 \<le> n \<longrightarrow> (\<exists>res p'. parseMDSEXP n p = Some (res, p') \<and> psize p' \<le> psize p)) \<and>
   (\<forall>l p. 3 * psize p + 1 \<le> n \<longrightarrow> (\<exists>res p'. parsePMSEXP n l p = Some (res, p') \<and> psize p' \<le> psize p)) \<and>
   (\<forall>p. 3 * psize p + 3 \<le> n \<longrightarrow> (\<exists>res p'. parseEXP n p = Some (res, p') \<and> psize p' \<le> psize p))"
proof (induction n)
  case 0
  show ?case by simp
next
  case (Suc n)
  then have IH_SUB: "\<And>p. 3 * psize p + 1 \<le> n \<Longrightarrow> \<exists>res p'. parseSUBEXP n p = Some (res, p') \<and> psize p' \<le> psize p"
    and IH_MD: "\<And>l p. 3 * psize p + 1 \<le> n \<Longrightarrow> \<exists>res p'. parseMDEXP n l p = Some (res, p') \<and> psize p' \<le> psize p"
    and IH_MDS: "\<And>p. 3 * psize p + 2 \<le> n \<Longrightarrow> \<exists>res p'. parseMDSEXP n p = Some (res, p') \<and> psize p' \<le> psize p"
    and IH_PMS: "\<And>l p. 3 * psize p + 1 \<le> n \<Longrightarrow> \<exists>res p'. parsePMSEXP n l p = Some (res, p') \<and> psize p' \<le> psize p"
    and IH_EXP: "\<And>p. 3 * psize p + 3 \<le> n \<Longrightarrow> \<exists>res p'. parseEXP n p = Some (res, p') \<and> psize p' \<le> psize p"
    by blast+
  have SUB: "\<exists>res p'. parseSUBEXP (Suc n) p = Some (res, p') \<and> psize p' \<le> psize p"
    if b: "3 * psize p + 1 \<le> Suc n" for p
  proof -
    obtain r1 p1 where nt: "nextTok p = (r1, p1)" by (cases "nextTok p")
    show ?thesis
    proof (cases r1)
      case (Inl err)
      with nt nextTok_le[OF nt] show ?thesis by simp
    next
      case (Inr tok)
      with nt have lt: "psize p1 < psize p" using nextTok_lt[OF nt] by simp
      show ?thesis
      proof (cases "tok_op tok = LP")
        case True
        from lt b have "3 * psize p1 + 3 \<le> n" by simp
        from IH_EXP[OF this] obtain r2 p2 where e: "parseEXP n p1 = Some (r2, p2)" "psize p2 \<le> psize p1"
          by blast
        obtain r3 p3 where x: "expectTok p2 (opTok RP) = (r3, p3)" by (cases "expectTok p2 (opTok RP)")
        from expectTok_le[OF x] e lt have "psize p3 \<le> psize p" "psize p2 \<le> psize p" by simp_all
        with nt Inr True e x show ?thesis by (cases r2; cases r3) simp_all
      next
        case False
        with nt Inr lt show ?thesis by simp
      qed
    qed
  qed
  have MD: "\<exists>res p'. parseMDEXP (Suc n) l p = Some (res, p') \<and> psize p' \<le> psize p"
    if b: "3 * psize p + 1 \<le> Suc n" for l p
  proof -
    obtain r1 p1 where nt: "nextTok p = (r1, p1)" by (cases "nextTok p")
    show ?thesis
    proof (cases "r1 = Inl EOF")
      case True
      with nt nextTok_le[OF nt] show ?thesis by simp
    next
      case False
      from nextTok_lt[OF nt False] have lt: "psize p1 < psize p" and lk: "tok_op (look p1) = NONE" by simp_all
      have step: "parseMDEXP (Suc n) l p =
          (let tok = tokOf r1 in
           if tok_op tok = MUL \<or> tok_op tok = DIV then
             (case parseSUBEXP n p1 of
                None \<Rightarrow> None
              | Some (Inl err, p2) \<Rightarrow> Some (Inl err, p2)
              | Some (Inr ex, p2) \<Rightarrow> parseMDEXP n (binExpr (tok_op tok) l ex) p2)
           else (case unreadToken p1 tok of
                   (Some err, p2) \<Rightarrow> Some (Inl err, p2)
                 | (None, p2) \<Rightarrow> Some (Inr l, p2)))"
        using nt False by (cases r1; (cases "projl r1")?) auto
      show ?thesis
      proof (cases "tok_op (tokOf r1) = MUL \<or> tok_op (tokOf r1) = DIV")
        case True
        from lt b have "3 * psize p1 + 1 \<le> n" by simp
        from IH_SUB[OF this] obtain r2 p2 where s: "parseSUBEXP n p1 = Some (r2, p2)" "psize p2 \<le> psize p1"
          by blast
        show ?thesis
        proof (cases r2)
          case (Inl err)
          with step True s lt show ?thesis by (simp add: Let_def)
        next
          case (Inr ex)
          from s lt b have "3 * psize p2 + 1 \<le> n" by simp
          from IH_MD[OF this, of "binExpr (tok_op (tokOf r1)) l ex"] obtain r3 p3 where
            "parseMDEXP n (binExpr (tok_op (tokOf r1)) l ex) p2 = Some (r3, p3)" "psize p3 \<le> psize p2"
            by blast
          with step True s lt Inr show ?thesis by (simp add: Let_def)
        qed
      next
        case F2: False
        from unreadToken_le[OF lk, of "tokOf r1"] obtain p2 where
          "unreadToken p1 (tokOf r1) = (None, p2)" "psize p2 \<le> psize p1 + 1" by blast
        with step F2 lt show ?thesis by (simp add: Let_def)
      qed
    qed
  qed
  have MDS: "\<exists>res p'. parseMDSEXP (Suc n) p = Some (res, p') \<and> psize p' \<le> psize p"
    if b: "3 * psize p + 2 \<le> Suc n" for p
  proof -
    from b have "3 * psize p + 1 \<le> n" by simp
    from IH_SUB[OF this] obtain r1 p1 where s: "parseSUBEXP n p = Some (r1, p1)" "psize p1 \<le> psize p"
      by blast
    show ?thesis
    proof (cases r1)
      case (Inl err)
      with s show ?thesis by simp
    next
      case (Inr ex)
      from s b have "3 * psize p1 + 1 \<le> n" by simp
      from IH_MD[OF this, of ex] obtain r2 p2 where
        "parseMDEXP n ex p1 = Some (r2, p2)" "psize p2 \<le> psize p1" by blast
      with s Inr show ?thesis by simp
    qed
  qed
  have PMS: "\<exists>res p'. parsePMSEXP (Suc n) l p = Some (res, p') \<and> psize p' \<le> psize p"
    if b: "3 * psize p + 1 \<le> Suc n" for l p
  proof -
    obtain r1 p1 where nt: "nextTok p = (r1, p1)" by (cases "nextTok p")
    show ?thesis
    proof (cases "r1 = Inl EOF")
      case True
      with nt nextTok_le[OF nt] show ?thesis by simp
    next
      case False
      from nextTok_lt[OF nt False] have lt: "psize p1 < psize p" and lk: "tok_op (look p1) = NONE" by simp_all
      have step: "parsePMSEXP (Suc n) l p =
          (let tok = tokOf r1 in
           if tok_op tok = ADD \<or> tok_op tok = SUB then
             (case parseMDSEXP n p1 of
                None \<Rightarrow> None
              | Some (Inl err, p2) \<Rightarrow> Some (Inl err, p2)
              | Some (Inr ex, p2) \<Rightarrow> parsePMSEXP n (binExpr (tok_op tok) l ex) p2)
           else (case unreadToken p1 tok of
                   (Some err, p2) \<Rightarrow> Some (Inl err, p2)
                 | (None, p2) \<Rightarrow> Some (Inr l, p2)))"
        using nt False by (cases r1; (cases "projl r1")?) auto
      show ?thesis
      proof (cases "tok_op (tokOf r1) = ADD \<or> tok_op (tokOf r1) = SUB")
        case True
        from lt b have "3 * psize p1 + 2 \<le> n" by simp
        from IH_MDS[OF this] obtain r2 p2 where s: "parseMDSEXP n p1 = Some (r2, p2)" "psize p2 \<le> psize p1"
          by blast
        show ?thesis
        proof (cases r2)
          case (Inl err)
          with step True s lt show ?thesis by (simp add: Let_def)
        next
          case (Inr ex)
          from s lt b have "3 * psize p2 + 1 \<le> n" by simp
          from IH_PMS[OF this, of "binExpr (tok_op (tokOf r1)) l ex"] obtain r3 p3 where
            "parsePMSEXP n (binExpr (tok_op (tokOf r1)) l ex) p2 = Some (r3, p3)" "psize p3 \<le> psize p2"
            by blast
          with step True s lt Inr show ?thesis by (simp add: Let_def)
        qed
      next
        case F2: False
        from unreadToken_le[OF lk, of "tokOf r1"] obtain p2 where
          "unreadToken p1 (tokOf r1) = (None, p2)" "psize p2 \<le> psize p1 + 1" by blast
        with step F2 lt show ?thesis by (simp add: Let_def)
      qed
    qed
  qed
  have EXP: "\<exists>res p'. parseEXP (Suc n) p = Some (res, p') \<and> psize p' \<le> psize p"
    if b: "3 * psize p + 3 \<le> Suc n" for p
  proof -
    from b have "3 * psize p + 2 \<le> n" by simp
    from IH_MDS[OF this] obtain r1 p1 where s: "parseMDSEXP n p = Some (r1, p1)" "psize p1 \<le> psize p"
      by blast
    show ?thesis
    proof (cases r1)
      case (Inl err)
      with s show ?thesis by simp
    next
      case (Inr ex)
      from s b have "3 * psize p1 + 1 \<le> n" by simp
      from IH_PMS[OF this, of ex] obtain r2 p2 where
        "parsePMSEXP n ex p1 = Some (r2, p2)" "psize p2 \<le> psize p1" by blast
      with s Inr show ?thesis by simp
    qed
  qed
  from SUB MD MDS PMS EXP show ?case by blast
qed

lemma ParseExpression_total: "\<exists>res. ParseExpression eqn = Some res"
proof -
  obtain e rd where x: "expectStr eqn ''='' = (e, rd)" by (cases "expectStr eqn ''=''")
  then have "length rd \<le> length eqn" by (auto simp: expectStr_def Let_def split: if_splits)
  then have "3 * psize \<lparr>reader = rd, look = noTok\<rparr> + 3 \<le> 3 * length eqn + 3"
    by (simp add: psize_def noTok_def)
  with parse_total[of "3 * length eqn + 3"] obtain res p' where
    "parseEXP (3 * length eqn + 3) \<lparr>reader = rd, look = noTok\<rparr> = Some (res, p')" by blast
  with x show ?thesis by (cases res) (simp_all add: ParseExpression_def)
qed

subsection \<open>The grammar of formulas and the trees it denotes\<close>

text \<open>
  The grammar of the specification, with the tree each text denotes (multiplicative
  operators bind tighter, operators associate to the left, parentheses leave no node):
  \<^verbatim>\<open>Expr = Term (("+" | "-") Term)*\<close>, \<^verbatim>\<open>Term = Factor (("*" | "/") Factor)*\<close>,
  \<^verbatim>\<open>Factor = "(" Expr ")" | Identifier\<close>, \<^verbatim>\<open>Identifier = [A-Za-z0-9]+\<close>.
  \<open>mdTail l w e\<close> and \<open>pmTail l w e\<close> are the repetitions: the text \<open>w\<close> of operators and
  operands extends the tree \<open>l\<close> read so far to \<open>e\<close>.
\<close>

definition isIdent :: "string \<Rightarrow> bool" where
  "isIdent v = (v \<noteq> [] \<and> list_all (\<lambda>c. isLetter c \<or> isDigit c) v)"

inductive factorG :: "string \<Rightarrow> Expression \<Rightarrow> bool"
  and mdTail :: "Expression \<Rightarrow> string \<Rightarrow> Expression \<Rightarrow> bool"
  and termG :: "string \<Rightarrow> Expression \<Rightarrow> bool"
  and pmTail :: "Expression \<Rightarrow> string \<Rightarrow> Expression \<Rightarrow> bool"
  and exprG :: "string \<Rightarrow> Expression \<Rightarrow> bool"
where
  G_ident: "isIdent v \<Longrightarrow> factorG v (idExpr v)"
| G_paren: "exprG w e \<Longrightarrow> factorG (CHR ''('' # w @ '')'') e"
| G_md_nil: "mdTail l [] l"
| G_md_mul: "factorG w2 e2 \<Longrightarrow> mdTail (binExpr MUL l e2) w3 e \<Longrightarrow> mdTail l (CHR ''*'' # w2 @ w3) e"
| G_md_div: "factorG w2 e2 \<Longrightarrow> mdTail (binExpr DIV l e2) w3 e \<Longrightarrow> mdTail l (CHR ''/'' # w2 @ w3) e"
| G_term: "factorG w1 e1 \<Longrightarrow> mdTail e1 w2 e \<Longrightarrow> termG (w1 @ w2) e"
| G_pm_nil: "pmTail l [] l"
| G_pm_add: "termG w2 e2 \<Longrightarrow> pmTail (binExpr ADD l e2) w3 e \<Longrightarrow> pmTail l (CHR ''+'' # w2 @ w3) e"
| G_pm_sub: "termG w2 e2 \<Longrightarrow> pmTail (binExpr SUB l e2) w3 e \<Longrightarrow> pmTail l (CHR ''-'' # w2 @ w3) e"
| G_expr: "termG w1 e1 \<Longrightarrow> pmTail e1 w2 e \<Longrightarrow> exprG (w1 @ w2) e"

text \<open>What may follow a factor, a term and an expression.\<close>

definition followF :: "string \<Rightarrow> bool" where
  "followF rest = (rest = [] \<or> hd rest \<in> {CHR ''*'', CHR ''/'', CHR ''+'', CHR ''-'', CHR '')''})"

definition followT :: "string \<Rightarrow> bool" where
  "followT rest = (rest = [] \<or> hd rest \<in> {CHR ''+'', CHR ''-'', CHR '')''})"

definition followE :: "string \<Rightarrow> bool" where
  "followE rest = (rest = [] \<or> hd rest = CHR '')'')"

fun opOfChar :: "char \<Rightarrow> op" where
  "opOfChar c =
     (if c = CHR ''-'' then SUB else if c = CHR ''+'' then ADD else if c = CHR ''*'' then MUL
      else if c = CHR ''/'' then DIV else if c = CHR ''('' then LP else if c = CHR '')'' then RP
      else NONE)"

text \<open>
  The parser state once the token that starts \<open>rest\<close> has been read and pushed back
  (nothing is pushed back at the end of the input).
\<close>

definition peek :: "string \<Rightarrow> parser" where
  "peek rest =
     (case rest of
        [] \<Rightarrow> \<lparr>reader = [], look = noTok\<rparr>
      | c # cs \<Rightarrow> \<lparr>reader = cs, look = opTok (opOfChar c)\<rparr>)"

lemma followE_T: "followE rest \<Longrightarrow> followT rest"
  by (auto simp: followE_def followT_def)

lemma followT_F: "followT rest \<Longrightarrow> followF rest"
  by (auto simp: followT_def followF_def)

lemma mdTail_hd: "mdTail l w e \<Longrightarrow> w = [] \<or> hd w \<in> {CHR ''*'', CHR ''/''}"
  by (erule mdTail.cases) auto

lemma pmTail_hd: "pmTail l w e \<Longrightarrow> w = [] \<or> hd w \<in> {CHR ''+'', CHR ''-''}"
  by (erule pmTail.cases) auto

lemma followF_mdTail: "mdTail l w e \<Longrightarrow> followT rest \<Longrightarrow> followF (w @ rest)"
  using mdTail_hd[of l w e] followT_F[of rest] by (cases w) (auto simp: followF_def)

lemma followT_pmTail: "pmTail l w e \<Longrightarrow> followE rest \<Longrightarrow> followT (w @ rest)"
  using pmTail_hd[of l w e] followE_T[of rest] by (cases w) (auto simp: followT_def)

lemma op_chars_not_alnum:
  "c \<in> {CHR ''*'', CHR ''/'', CHR ''+'', CHR ''-'', CHR '')'', CHR ''(''} \<Longrightarrow> \<not> (isLetter c \<or> isDigit c)"
  by (auto simp: isLetter_def isDigit_def)

lemma idLoop_ident:
  "list_all (\<lambda>c. isLetter c \<or> isDigit c) v \<Longrightarrow> followF rest \<Longrightarrow> idLoop rs (v @ rest) = (rs @ v, rest)"
proof (induction v arbitrary: rs)
  case Nil
  then show ?case
    using op_chars_not_alnum[of "hd rest"] by (cases rest) (auto simp: followF_def)
next
  case (Cons a v)
  then show ?case by simp
qed

lemma nextTok_ident:
  assumes "isIdent v" "followF rest"
  shows "nextTok \<lparr>reader = v @ rest, look = noTok\<rparr> =
         (Inr \<lparr>tok_op = ID, tok_val = v\<rparr>, \<lparr>reader = rest, look = noTok\<rparr>)"
proof -
  from assms(1) obtain a v' where v: "v = a # v'" "isLetter a \<or> isDigit a"
    "list_all (\<lambda>c. isLetter c \<or> isDigit c) v" by (cases v) (auto simp: isIdent_def)
  then have na: "a \<notin> {CHR ''*'', CHR ''/'', CHR ''+'', CHR ''-'', CHR '')'', CHR ''(''}"
    using op_chars_not_alnum[of a] by blast
  from idLoop_ident[OF v(3) assms(2), of "[]"] v(1) have "idLoop [] (a # v' @ rest) = (v, rest)" by simp
  with v na show ?thesis by (simp add: nextTok_def noTok_def)
qed

lemma nextTok_opchar:
  "c \<in> {CHR ''*'', CHR ''/'', CHR ''+'', CHR ''-'', CHR '')'', CHR ''(''} \<Longrightarrow>
   nextTok \<lparr>reader = c # cs, look = noTok\<rparr> = (Inr (opTok (opOfChar c)), \<lparr>reader = cs, look = noTok\<rparr>)"
  by (auto simp: nextTok_def noTok_def)

lemma nextTok_peek:
  "c \<in> {CHR ''*'', CHR ''/'', CHR ''+'', CHR ''-'', CHR '')'', CHR ''(''} \<Longrightarrow>
   nextTok (peek (c # cs)) = (Inr (opTok (opOfChar c)), \<lparr>reader = cs, look = noTok\<rparr>)"
  by (auto simp: nextTok_def peek_def opTok_def)

lemma nextTok_end: "nextTok \<lparr>reader = [], look = noTok\<rparr> = (Inl EOF, \<lparr>reader = [], look = noTok\<rparr>)"
  by (simp add: nextTok_def noTok_def)

lemma unread_peek:
  "unreadToken \<lparr>reader = cs, look = noTok\<rparr> (opTok (opOfChar c)) = (None, peek (c # cs))"
  by (simp add: unreadToken_def noTok_def peek_def)

lemma parseSUBEXP_ident:
  "isIdent v \<Longrightarrow> followF rest \<Longrightarrow>
   parseSUBEXP (Suc n) \<lparr>reader = v @ rest, look = noTok\<rparr> = Some (Inr (idExpr v), \<lparr>reader = rest, look = noTok\<rparr>)"
  by (simp add: nextTok_ident)

lemma parseSUBEXP_paren:
  "parseSUBEXP (Suc n) \<lparr>reader = CHR ''('' # w, look = noTok\<rparr> =
     (case parseEXP n \<lparr>reader = w, look = noTok\<rparr> of
        None \<Rightarrow> None
      | Some (Inl err, p2) \<Rightarrow> Some (Inl err, p2)
      | Some (Inr exp, p2) \<Rightarrow>
          (case expectTok p2 (opTok RP) of
             (Some err, p3) \<Rightarrow> Some (Inl err, p3)
           | (None, p3) \<Rightarrow> Some (Inr exp, p3)))"
  by (simp add: nextTok_opchar opTok_def)

lemma expectTok_peek_RP:
  "expectTok (peek (CHR '')'' # rest)) (opTok RP) = (None, \<lparr>reader = rest, look = noTok\<rparr>)"
  by (simp add: expectTok_def nextTok_peek)

lemma parseMDEXP_stop:
  assumes "followT rest"
  shows "parseMDEXP (Suc n) l \<lparr>reader = rest, look = noTok\<rparr> = Some (Inr l, peek rest)"
proof (cases rest)
  case Nil
  then show ?thesis by (simp add: nextTok_end peek_def)
next
  case (Cons c cs)
  with assms have c: "c \<in> {CHR ''+'', CHR ''-'', CHR '')''}" by (simp add: followT_def)
  then have "nextTok \<lparr>reader = c # cs, look = noTok\<rparr> = (Inr (opTok (opOfChar c)), \<lparr>reader = cs, look = noTok\<rparr>)"
    by (intro nextTok_opchar) auto
  moreover from c have "tok_op (opTok (opOfChar c)) \<noteq> MUL \<and> tok_op (opTok (opOfChar c)) \<noteq> DIV"
    by (auto simp: opTok_def)
  ultimately show ?thesis using Cons unread_peek[of cs c] by (simp add: Let_def del: opOfChar.simps)
qed

lemma parseMDEXP_mul:
  "parseMDEXP (Suc n) l \<lparr>reader = CHR ''*'' # w, look = noTok\<rparr> =
     (case parseSUBEXP n \<lparr>reader = w, look = noTok\<rparr> of
        None \<Rightarrow> None
      | Some (Inl err, p2) \<Rightarrow> Some (Inl err, p2)
      | Some (Inr ex, p2) \<Rightarrow> parseMDEXP n (binExpr MUL l ex) p2)"
  by (auto simp: nextTok_opchar opTok_def Let_def split: option.splits sum.splits prod.splits)

lemma parseMDEXP_div:
  "parseMDEXP (Suc n) l \<lparr>reader = CHR ''/'' # w, look = noTok\<rparr> =
     (case parseSUBEXP n \<lparr>reader = w, look = noTok\<rparr> of
        None \<Rightarrow> None
      | Some (Inl err, p2) \<Rightarrow> Some (Inl err, p2)
      | Some (Inr ex, p2) \<Rightarrow> parseMDEXP n (binExpr DIV l ex) p2)"
  by (auto simp: nextTok_opchar opTok_def Let_def split: option.splits sum.splits prod.splits)

lemma parsePMSEXP_stop:
  assumes "followE rest"
  shows "parsePMSEXP (Suc n) l (peek rest) = Some (Inr l, peek rest)"
proof (cases rest)
  case Nil
  then show ?thesis by (simp add: nextTok_end peek_def)
next
  case (Cons c cs)
  with assms have c: "c = CHR '')''" by (simp add: followE_def)
  with Cons show ?thesis
    using unread_peek[of cs c] by (simp add: nextTok_peek Let_def opTok_def)
qed

lemma parsePMSEXP_add:
  "parsePMSEXP (Suc n) l (peek (CHR ''+'' # w)) =
     (case parseMDSEXP n \<lparr>reader = w, look = noTok\<rparr> of
        None \<Rightarrow> None
      | Some (Inl err, p2) \<Rightarrow> Some (Inl err, p2)
      | Some (Inr ex, p2) \<Rightarrow> parsePMSEXP n (binExpr ADD l ex) p2)"
  by (auto simp: nextTok_peek opTok_def Let_def split: option.splits sum.splits prod.splits)

lemma parsePMSEXP_sub:
  "parsePMSEXP (Suc n) l (peek (CHR ''-'' # w)) =
     (case parseMDSEXP n \<lparr>reader = w, look = noTok\<rparr> of
        None \<Rightarrow> None
      | Some (Inl err, p2) \<Rightarrow> Some (Inl err, p2)
      | Some (Inr ex, p2) \<Rightarrow> parsePMSEXP n (binExpr SUB l ex) p2)"
  by (auto simp: nextTok_peek opTok_def Let_def split: option.splits sum.splits prod.splits)

lemma parse_grammar:
  shows "factorG w e \<Longrightarrow> (\<forall>n rest r. followF rest \<longrightarrow>
        parseSUBEXP n \<lparr>reader = w @ rest, look = noTok\<rparr> = Some r \<longrightarrow>
        r = (Inr e, \<lparr>reader = rest, look = noTok\<rparr>))"
    and "mdTail l w e \<Longrightarrow> (\<forall>n rest r. followT rest \<longrightarrow>
        parseMDEXP n l \<lparr>reader = w @ rest, look = noTok\<rparr> = Some r \<longrightarrow> r = (Inr e, peek rest))"
    and "termG w e \<Longrightarrow> (\<forall>n rest r. followT rest \<longrightarrow>
        parseMDSEXP n \<lparr>reader = w @ rest, look = noTok\<rparr> = Some r \<longrightarrow> r = (Inr e, peek rest))"
    and "pmTail l w e \<Longrightarrow> (\<forall>n rest r. followE rest \<longrightarrow>
        parsePMSEXP n l (peek (w @ rest)) = Some r \<longrightarrow> r = (Inr e, peek rest))"
    and "exprG w e \<Longrightarrow> (\<forall>n rest r. followE rest \<longrightarrow>
        parseEXP n \<lparr>reader = w @ rest, look = noTok\<rparr> = Some r \<longrightarrow> r = (Inr e, peek rest))"
proof (induction rule: factorG_mdTail_termG_pmTail_exprG.inducts)
    case (G_ident v)
    show ?case
    proof (intro allI impI)
      fix n rest r
      assume f: "followF rest" and p: "parseSUBEXP n \<lparr>reader = v @ rest, look = noTok\<rparr> = Some r"
      from p obtain m where "n = Suc m" by (cases n) auto
      with p parseSUBEXP_ident[OF G_ident f, of m]
      show "r = (Inr (idExpr v), \<lparr>reader = rest, look = noTok\<rparr>)" by simp
    qed
  next
    case (G_paren w e)
    show ?case
    proof (intro allI impI)
      fix n rest r
      assume f: "followF rest"
        and p: "parseSUBEXP n \<lparr>reader = (CHR ''('' # w @ '')'') @ rest, look = noTok\<rparr> = Some r"
      from p obtain m where n: "n = Suc m" by (cases n) auto
      have fe: "followE (CHR '')'' # rest)" by (simp add: followE_def)
      from p n have q: "(case parseEXP m \<lparr>reader = w @ (CHR '')'' # rest), look = noTok\<rparr> of
            None \<Rightarrow> None
          | Some (Inl err, p2) \<Rightarrow> Some (Inl err, p2)
          | Some (Inr exp, p2) \<Rightarrow>
              (case expectTok p2 (opTok RP) of
                 (Some err, p3) \<Rightarrow> Some (Inl err, p3)
               | (None, p3) \<Rightarrow> Some (Inr exp, p3))) = Some r"
        by (simp add: parseSUBEXP_paren del: parseSUBEXP.simps)
      then obtain r2 where r2: "parseEXP m \<lparr>reader = w @ (CHR '')'' # rest), look = noTok\<rparr> = Some r2"
        by (cases "parseEXP m \<lparr>reader = w @ (CHR '')'' # rest), look = noTok\<rparr>") auto
      with G_paren.IH fe have "r2 = (Inr e, peek (CHR '')'' # rest))" by blast
      with q r2 show "r = (Inr e, \<lparr>reader = rest, look = noTok\<rparr>)"
        by (simp add: expectTok_peek_RP)
    qed
  next
    case (G_md_nil l)
    show ?case
    proof (intro allI impI)
      fix n rest r
      assume f: "followT rest" and p: "parseMDEXP n l \<lparr>reader = [] @ rest, look = noTok\<rparr> = Some r"
      from p obtain m where "n = Suc m" by (cases n) auto
      with p parseMDEXP_stop[OF f, of m l] show "r = (Inr l, peek rest)" by simp
    qed
  next
    case (G_md_mul w2 e2 l w3 e)
    show ?case
    proof (intro allI impI)
      fix n rest r
      assume f: "followT rest"
        and p: "parseMDEXP n l \<lparr>reader = (CHR ''*'' # w2 @ w3) @ rest, look = noTok\<rparr> = Some r"
      from p obtain m where n: "n = Suc m" by (cases n) auto
      from followF_mdTail[OF G_md_mul(2) f] have ff: "followF (w3 @ rest)" .
      from p n have q: "(case parseSUBEXP m \<lparr>reader = w2 @ (w3 @ rest), look = noTok\<rparr> of
            None \<Rightarrow> None
          | Some (Inl err, p2) \<Rightarrow> Some (Inl err, p2)
          | Some (Inr ex, p2) \<Rightarrow> parseMDEXP m (binExpr MUL l ex) p2) = Some r"
        by (simp add: parseMDEXP_mul del: parseMDEXP.simps)
      then obtain r2 where r2: "parseSUBEXP m \<lparr>reader = w2 @ (w3 @ rest), look = noTok\<rparr> = Some r2"
        by (cases "parseSUBEXP m \<lparr>reader = w2 @ (w3 @ rest), look = noTok\<rparr>") auto
      with G_md_mul.IH(1) ff have "r2 = (Inr e2, \<lparr>reader = w3 @ rest, look = noTok\<rparr>)" by blast
      with q r2 have "parseMDEXP m (binExpr MUL l e2) \<lparr>reader = w3 @ rest, look = noTok\<rparr> = Some r" by simp
      with G_md_mul.IH(2) f show "r = (Inr e, peek rest)" by blast
    qed
  next
    case (G_md_div w2 e2 l w3 e)
    show ?case
    proof (intro allI impI)
      fix n rest r
      assume f: "followT rest"
        and p: "parseMDEXP n l \<lparr>reader = (CHR ''/'' # w2 @ w3) @ rest, look = noTok\<rparr> = Some r"
      from p obtain m where n: "n = Suc m" by (cases n) auto
      from followF_mdTail[OF G_md_div(2) f] have ff: "followF (w3 @ rest)" .
      from p n have q: "(case parseSUBEXP m \<lparr>reader = w2 @ (w3 @ rest), look = noTok\<rparr> of
            None \<Rightarrow> None
          | Some (Inl err, p2) \<Rightarrow> Some (Inl err, p2)
          | Some (Inr ex, p2) \<Rightarrow> parseMDEXP m (binExpr DIV l ex) p2) = Some r"
        by (simp add: parseMDEXP_div del: parseMDEXP.simps)
      then obtain r2 where r2: "parseSUBEXP m \<lparr>reader = w2 @ (w3 @ rest), look = noTok\<rparr> = Some r2"
        by (cases "parseSUBEXP m \<lparr>reader = w2 @ (w3 @ rest), look = noTok\<rparr>") auto
      with G_md_div.IH(1) ff have "r2 = (Inr e2, \<lparr>reader = w3 @ rest, look = noTok\<rparr>)" by blast
      with q r2 have "parseMDEXP m (binExpr DIV l e2) \<lparr>reader = w3 @ rest, look = noTok\<rparr> = Some r" by simp
      with G_md_div.IH(2) f show "r = (Inr e, peek rest)" by blast
    qed
  next
    case (G_term w1 e1 w2 e)
    show ?case
    proof (intro allI impI)
      fix n rest r
      assume f: "followT rest"
        and p: "parseMDSEXP n \<lparr>reader = (w1 @ w2) @ rest, look = noTok\<rparr> = Some r"
      from p obtain m where n: "n = Suc m" by (cases n) auto
      from followF_mdTail[OF G_term(2) f] have ff: "followF (w2 @ rest)" .
      from p n obtain r2 where r2: "parseSUBEXP m \<lparr>reader = w1 @ (w2 @ rest), look = noTok\<rparr> = Some r2"
        by (cases "parseSUBEXP m \<lparr>reader = w1 @ (w2 @ rest), look = noTok\<rparr>") auto
      with G_term.IH(1) ff have "r2 = (Inr e1, \<lparr>reader = w2 @ rest, look = noTok\<rparr>)" by blast
      with p n r2 have "parseMDEXP m e1 \<lparr>reader = w2 @ rest, look = noTok\<rparr> = Some r" by simp
      with G_term.IH(2) f show "r = (Inr e, peek rest)" by blast
    qed
  next
    case (G_pm_nil l)
    show ?case
    proof (intro allI impI)
      fix n rest r
      assume f: "followE rest" and p: "parsePMSEXP n l (peek ([] @ rest)) = Some r"
      from p obtain m where "n = Suc m" by (cases n) auto
      with p parsePMSEXP_stop[OF f, of m l] show "r = (Inr l, peek rest)" by simp
    qed
  next
    case (G_pm_add w2 e2 l w3 e)
    show ?case
    proof (intro allI impI)
      fix n rest r
      assume f: "followE rest"
        and p: "parsePMSEXP n l (peek ((CHR ''+'' # w2 @ w3) @ rest)) = Some r"
      from p obtain m where n: "n = Suc m" by (cases n) auto
      from followT_pmTail[OF G_pm_add(2) f] have ff: "followT (w3 @ rest)" .
      from p n have q: "(case parseMDSEXP m \<lparr>reader = w2 @ (w3 @ rest), look = noTok\<rparr> of
            None \<Rightarrow> None
          | Some (Inl err, p2) \<Rightarrow> Some (Inl err, p2)
          | Some (Inr ex, p2) \<Rightarrow> parsePMSEXP m (binExpr ADD l ex) p2) = Some r"
        by (simp add: parsePMSEXP_add del: parsePMSEXP.simps)
      then obtain r2 where r2: "parseMDSEXP m \<lparr>reader = w2 @ (w3 @ rest), look = noTok\<rparr> = Some r2"
        by (cases "parseMDSEXP m \<lparr>reader = w2 @ (w3 @ rest), look = noTok\<rparr>") auto
      with G_pm_add.IH(1) ff have "r2 = (Inr e2, peek (w3 @ rest))" by blast
      with q r2 have "parsePMSEXP m (binExpr ADD l e2) (peek (w3 @ rest)) = Some r" by simp
      with G_pm_add.IH(2) f show "r = (Inr e, peek rest)" by blast
    qed
  next
    case (G_pm_sub w2 e2 l w3 e)
    show ?case
    proof (intro allI impI)
      fix n rest r
      assume f: "followE rest"
        and p: "parsePMSEXP n l (peek ((CHR ''-'' # w2 @ w3) @ rest)) = Some r"
      from p obtain m where n: "n = Suc m" by (cases n) auto
      from followT_pmTail[OF G_pm_sub(2) f] have ff: "followT (w3 @ rest)" .
      from p n have q: "(case parseMDSEXP m \<lparr>reader = w2 @ (w3 @ rest), look = noTok\<rparr> of
            None \<Rightarrow> None
          | Some (Inl err, p2) \<Rightarrow> Some (Inl err, p2)
          | Some (Inr ex, p2) \<Rightarrow> parsePMSEXP m (binExpr SUB l ex) p2) = Some r"
        by (simp add: parsePMSEXP_sub del: parsePMSEXP.simps)
      then obtain r2 where r2: "parseMDSEXP m \<lparr>reader = w2 @ (w3 @ rest), look = noTok\<rparr> = Some r2"
        by (cases "parseMDSEXP m \<lparr>reader = w2 @ (w3 @ rest), look = noTok\<rparr>") auto
      with G_pm_sub.IH(1) ff have "r2 = (Inr e2, peek (w3 @ rest))" by blast
      with q r2 have "parsePMSEXP m (binExpr SUB l e2) (peek (w3 @ rest)) = Some r" by simp
      with G_pm_sub.IH(2) f show "r = (Inr e, peek rest)" by blast
    qed
  next
    case (G_expr w1 e1 w2 e)
    show ?case
    proof (intro allI impI)
      fix n rest r
      assume f: "followE rest"
        and p: "parseEXP n \<lparr>reader = (w1 @ w2) @ rest, look = noTok\<rparr> = Some r"
      from p obtain m where n: "n = Suc m" by (cases n) auto
      from followT_pmTail[OF G_expr(2) f] have ff: "followT (w2 @ rest)" .
      from p n obtain r2 where r2: "parseMDSEXP m \<lparr>reader = w1 @ (w2 @ rest), look = noTok\<rparr> = Some r2"
        by (cases "parseMDSEXP m \<lparr>reader = w1 @ (w2 @ rest), look = noTok\<rparr>") auto
      with G_expr.IH(1) ff have "r2 = (Inr e1, peek (w2 @ rest))" by blast
      with p n r2 have "parsePMSEXP m e1 (peek (w2 @ rest)) = Some r" by simp
      with G_expr.IH(2) f show "r = (Inr e, peek rest)" by blast
    qed
qed

text \<open>
  Claim C4 (code defect). A formula with white space after an operand parses: the
  tokenizer rejects the space, but \<^verbatim>\<open>parseMDEXP\<close> and \<^verbatim>\<open>parsePMSEXP\<close> only test the error
  for \<^verbatim>\<open>io.EOF\<close> and go on with the zero token, so the space is dropped. One space is
  skipped, two truncate the formula silently.
\<close>

theorem ParseExpression_whitespace_accepted:
  "ParseExpression ''=A1 +B1'' = Some (Inr (binExpr ADD (idExpr ''A1'') (idExpr ''B1''))) \<and>
   ParseExpression ''=A1 '' = Some (Inr (idExpr ''A1'')) \<and>
   ParseExpression ''=A1  +B1'' = Some (Inr (idExpr ''A1''))"
  by code_simp

text \<open>
  Claim C10, as the code has it. \<^verbatim>\<open>ParseExpression\<close> drops the first byte of its input
  unchecked: whatever that byte is, when the rest is a well-formed expression (possibly
  followed by text that starts with a closing parenthesis) the call succeeds and returns
  the tree of that expression.
\<close>

theorem ParseExpression_first_byte:
  assumes "exprG w e" "followE rest"
  shows "ParseExpression (c # w @ rest) = Some (Inr e)"
proof -
  obtain x where x: "expectStr (c # w @ rest) ''='' = (x, w @ rest)"
    by (simp add: expectStr_def)
  have "3 * psize \<lparr>reader = w @ rest, look = noTok\<rparr> + 3 \<le> 3 * length (c # w @ rest) + 3"
    by (simp add: psize_def noTok_def)
  with parse_total[of "3 * length (c # w @ rest) + 3"] obtain res p' where
    p: "parseEXP (3 * length (c # w @ rest) + 3) \<lparr>reader = w @ rest, look = noTok\<rparr> = Some (res, p')"
    by blast
  with parse_grammar(5)[OF assms(1)] assms(2) have "res = Inr e" by blast
  with p x show ?thesis by (simp add: ParseExpression_def del: parseEXP.simps)
qed

theorem ParseExpression_first_byte_witness:
  "exprG ''A1+B2*C3'' (binExpr ADD (idExpr ''A1'') (binExpr MUL (idExpr ''B2'') (idExpr ''C3''))) \<and>
   followE '')+D4'' \<and>
   ParseExpression ''xA1+B2*C3)+D4'' =
     Some (Inr (binExpr ADD (idExpr ''A1'') (binExpr MUL (idExpr ''B2'') (idExpr ''C3''))))"
proof -
  have f1: "factorG ''A1'' (idExpr ''A1'')"
    by (rule G_ident) (simp add: isIdent_def isLetter_def isDigit_def)
  have f2: "factorG ''B2'' (idExpr ''B2'')"
    by (rule G_ident) (simp add: isIdent_def isLetter_def isDigit_def)
  have f3: "factorG ''C3'' (idExpr ''C3'')"
    by (rule G_ident) (simp add: isIdent_def isLetter_def isDigit_def)
  have t1: "termG ''A1'' (idExpr ''A1'')"
    using G_term[OF f1 G_md_nil] by simp
  have m: "mdTail (idExpr ''B2'') ''*C3'' (binExpr MUL (idExpr ''B2'') (idExpr ''C3''))"
    using G_md_mul[OF f3 G_md_nil, of "idExpr ''B2''"] by simp
  have t2: "termG ''B2*C3'' (binExpr MUL (idExpr ''B2'') (idExpr ''C3''))"
    using G_term[OF f2 m] by simp
  have pm: "pmTail (idExpr ''A1'') ''+B2*C3''
      (binExpr ADD (idExpr ''A1'') (binExpr MUL (idExpr ''B2'') (idExpr ''C3'')))"
    using G_pm_add[OF t2 G_pm_nil, of "idExpr ''A1''"] by simp
  have ex: "exprG ''A1+B2*C3'' (binExpr ADD (idExpr ''A1'') (binExpr MUL (idExpr ''B2'') (idExpr ''C3'')))"
    using G_expr[OF t1 pm] by simp
  have fe: "followE '')+D4''" by (simp add: followE_def)
  from ParseExpression_first_byte[OF ex fe, of "CHR ''x''"] ex fe show ?thesis by simp
qed

text \<open>
  As the specification states the claim it fails: the rest of \<^verbatim>\<open>=A1+\<close> begins with the
  well-formed expression \<^verbatim>\<open>A1\<close>, and the call fails (with any first byte).
\<close>

theorem ParseExpression_first_byte_counterexample:
  "exprG ''A1'' (idExpr ''A1'') \<and>
   ParseExpression ''=A1+'' = Some (Inl EOF) \<and> ParseExpression ''xA1+'' = Some (Inl EOF)"
proof -
  have f1: "factorG ''A1'' (idExpr ''A1'')"
    by (rule G_ident) (simp add: isIdent_def isLetter_def isDigit_def)
  have "termG ''A1'' (idExpr ''A1'')"
    using G_term[OF f1 G_md_nil] by simp
  then have "exprG ''A1'' (idExpr ''A1'')"
    using G_expr[OF _ G_pm_nil, of "''A1''" "idExpr ''A1''"] by simp
  moreover have "ParseExpression ''=A1+'' = Some (Inl EOF) \<and> ParseExpression ''xA1+'' = Some (Inl EOF)"
    by code_simp
  ultimately show ?thesis by simp
qed

section \<open>Cells and the sheet (cell.go, sheet.go)\<close>

subsection \<open>Numbers\<close>

text \<open>
  Cell values are \<^verbatim>\<open>float64\<close>. The arithmetic, \<^verbatim>\<open>strconv.ParseFloat(content, 64)\<close> and
  \<^verbatim>\<open>fmt.Sprintf("%f", f)\<close> belong to the Go library, not to the program; the model takes
  them as a parameter \<open>F\<close>, and what is proved for every \<open>F\<close> holds for Go's.
\<close>

record 'f floatops =
  parseFloat :: "string \<Rightarrow> 'f option"
  fmtFloat :: "'f \<Rightarrow> string"
  fadd :: "'f \<Rightarrow> 'f \<Rightarrow> 'f"
  fzero :: 'f

subsection \<open>Data\<close>

datatype celltype = cell_transient | cell_val | cell_string | cell_expr

text \<open>
  A \<^verbatim>\<open>Cell\<close>. Cells are shared through pointers (\<^verbatim>\<open>upstream\<close>, \<^verbatim>\<open>downstream\<close>, the
  sheet's matrix); a pointer is modelled as an index into the list \<open>heap\<close> of all cells
  ever allocated. The back pointer \<^verbatim>\<open>sheet\<close> is left out: there is one sheet.
\<close>

record 'f Cell =
  cell_type :: celltype
  addr :: CellAddress
  content :: string
  val :: 'f
  expstr :: string
  exp :: "Expression option"
  expErr :: "error option"
  upstream :: "nat list"
  downstream :: "nat list"
  recalculating :: bool
  errCycle :: bool

text \<open>
  The sheet: \<^verbatim>\<open>matrix map[string]map[uint32]*Cell\<close> as an association list of association
  lists (the order of a Go map is unspecified and no result below depends on it).
  \<^verbatim>\<open>OnCellUpdated\<close> is \<^verbatim>\<open>nil\<close>, as \<^verbatim>\<open>NewSheet\<close> leaves it.
\<close>

record 'f Sheet =
  heap :: "'f Cell list"
  matrix :: "(string \<times> (nat \<times> nat) list) list"

definition NewSheet :: "'f Sheet" where
  "NewSheet = \<lparr>heap = [], matrix = []\<rparr>"

definition NewCell :: "'f floatops \<Rightarrow> CellAddress \<Rightarrow> 'f Cell" where
  "NewCell F a =
     \<lparr>cell_type = cell_transient, addr = a, content = [], val = fzero F, expstr = [],
      exp = None, expErr = None, upstream = [], downstream = [],
      recalculating = False, errCycle = False\<rparr>"

text \<open>Assignment through a pointer: \<open>updCell s p f\<close> replaces the cell at \<open>p\<close> by \<open>f\<close> of it.\<close>

definition updCell :: "'f Sheet \<Rightarrow> nat \<Rightarrow> ('f Cell \<Rightarrow> 'f Cell) \<Rightarrow> 'f Sheet" where
  "updCell s p f = s\<lparr>heap := (heap s)[p := f (heap s ! p)]\<rparr>"

subsection \<open>Looking cells up\<close>

definition cellAt :: "'f Sheet \<Rightarrow> CellAddress \<Rightarrow> nat option" where
  "cellAt s a =
     (case map_of (matrix s) (col a) of
        None \<Rightarrow> None
      | Some rows \<Rightarrow> map_of rows (row a))"

definition cellOrNewAt :: "'f floatops \<Rightarrow> 'f Sheet \<Rightarrow> CellAddress \<Rightarrow> nat \<times> 'f Sheet" where
  "cellOrNewAt F s a =
     (let rows = (case map_of (matrix s) (col a) of None \<Rightarrow> [] | Some rows \<Rightarrow> rows) in
      case map_of rows (row a) of
        Some p \<Rightarrow> (p, s)
      | None \<Rightarrow>
          (length (heap s),
           s\<lparr>heap := heap s @ [NewCell F a],
             matrix := AList.update (col a) (AList.update (row a) (length (heap s)) rows) (matrix s)\<rparr>))"

subsection \<open>Accessors\<close>

definition EditValue :: "'f floatops \<Rightarrow> 'f Cell \<Rightarrow> string" where
  "EditValue F c =
     (case cell_type c of
        cell_transient \<Rightarrow> []
      | cell_val \<Rightarrow> fmtFloat F (val c)
      | cell_string \<Rightarrow> content c
      | cell_expr \<Rightarrow> expstr c)"

definition Value :: "'f floatops \<Rightarrow> 'f Cell \<Rightarrow> error + 'f" where
  "Value F c =
     (case cell_type c of
        cell_transient \<Rightarrow> Inr (fzero F)
      | cell_string \<Rightarrow> Inl (Error (''Cannot get numeric value from '' @ addrString (addr c)))
      | cell_val \<Rightarrow> Inr (val c)
      | cell_expr \<Rightarrow>
          (case expErr c of
             Some e \<Rightarrow> Inl (Error (addrString (addr c) @ '': '' @ errorString e))
           | None \<Rightarrow> Inr (val c)))"

definition Content :: "'f floatops \<Rightarrow> 'f Cell \<Rightarrow> string" where
  "Content F c =
     (case cell_type c of
        cell_transient \<Rightarrow> []
      | cell_string \<Rightarrow> content c
      | cell_val \<Rightarrow> fmtFloat F (val c)
      | cell_expr \<Rightarrow>
          (case expErr c of
             Some e \<Rightarrow> addrString (addr c) @ '': '' @ errorString e
           | None \<Rightarrow> fmtFloat F (val c)))"

definition ValueAt :: "'f floatops \<Rightarrow> 'f Sheet \<Rightarrow> string \<Rightarrow> error + 'f" where
  "ValueAt F s a =
     (case CellAddr a of
        Inl err \<Rightarrow> Inl err
      | Inr ca \<Rightarrow>
          (case cellAt s ca of
             None \<Rightarrow> Inr (fzero F)
           | Some p \<Rightarrow> Value F (heap s ! p)))"

definition ContentAt :: "'f floatops \<Rightarrow> 'f Sheet \<Rightarrow> string \<Rightarrow> error + string" where
  "ContentAt F s a =
     (case CellAddr a of
        Inl err \<Rightarrow> Inl err
      | Inr ca \<Rightarrow>
          (case cellAt s ca of
             None \<Rightarrow> Inr []
           | Some p \<Rightarrow> Inr (Content F (heap s ! p))))"

definition EditAt :: "'f floatops \<Rightarrow> 'f Sheet \<Rightarrow> string \<Rightarrow> error + string" where
  "EditAt F s a =
     (case CellAddr a of
        Inl err \<Rightarrow> Inl err
      | Inr ca \<Rightarrow>
          (case cellAt s ca of
             None \<Rightarrow> Inr []
           | Some p \<Rightarrow> Inr (EditValue F (heap s ! p))))"

subsection \<open>Evaluation\<close>

text \<open>
  The result of a call that may return a value, return an error, or panic.
\<close>

datatype 'a result = Ok 'a | Fail error | Panic string

text \<open>
  \<^verbatim>\<open>upstreamAddrs\<close>: the addresses of the \<^verbatim>\<open>ID\<close> nodes, left to right; the first identifier
  that is no address makes the whole call fail.
\<close>

fun upstreamAddrs :: "Expression \<Rightarrow> error + CellAddress list" where
  "upstreamAddrs (Expression k l r v) =
     (if k = ID then (case CellAddr v of Inl err \<Rightarrow> Inl err | Inr a \<Rightarrow> Inr [a])
      else (case (case l of None \<Rightarrow> Inr [] | Some le \<Rightarrow> upstreamAddrs le) of
              Inl err \<Rightarrow> Inl err
            | Inr leftas \<Rightarrow>
                (case (case r of None \<Rightarrow> Inr [] | Some re \<Rightarrow> upstreamAddrs re) of
                   Inl err \<Rightarrow> Inl err
                 | Inr rightas \<Rightarrow> Inr (leftas @ rightas))))"

text \<open>
  \<^verbatim>\<open>Eval\<close>, as the repository has it: addition is evaluated, the other three operators
  panic. (The message of \<^verbatim>\<open>Bad Expression\<close> prints the node with \<^verbatim>\<open>%#v\<close>, pointer values
  included; the model keeps the fixed part.)
\<close>

fun Eval :: "'f floatops \<Rightarrow> 'f Sheet \<Rightarrow> Expression \<Rightarrow> 'f result" where
  "Eval F s (Expression k l r v) =
     (if k = ID then (case ValueAt F s v of Inl err \<Rightarrow> Fail err | Inr f \<Rightarrow> Ok f)
      else (case k of
              ADD \<Rightarrow>
                (case l of
                   None \<Rightarrow> Fail (Error ''Bad Expression: '')
                 | Some le \<Rightarrow>
                     (case Eval F s le of
                        Fail err \<Rightarrow> Fail err
                      | Panic m \<Rightarrow> Panic m
                      | Ok lv \<Rightarrow>
                          (case r of
                             None \<Rightarrow> Fail (Error ''Bad expression: '')
                           | Some re \<Rightarrow>
                               (case Eval F s re of
                                  Fail err \<Rightarrow> Fail err
                                | Panic m \<Rightarrow> Panic m
                                | Ok rv \<Rightarrow> Ok (fadd F lv rv)))))
            | SUB \<Rightarrow> Panic ''SUB NOT IMPLEMENTED''
            | MUL \<Rightarrow> Panic ''MUL NOT IMPLEMENTED''
            | DIV \<Rightarrow> Panic ''DIV NOT IMPLEMENTED''
            | _ \<Rightarrow> Panic ''BAD OP VAL''))"

subsection \<open>The dependency graph\<close>

definition addDownstream :: "'f Sheet \<Rightarrow> nat \<Rightarrow> nat \<Rightarrow> 'f Sheet" where
  "addDownstream s p c2 = updCell s p (\<lambda>c. c\<lparr>downstream := downstream c @ [c2]\<rparr>)"

text \<open>
  \<^verbatim>\<open>deleteSelfIfNecessary\<close> removes the entry at the cell's address from the row map of
  its column; the column's (possibly empty) row map stays in the matrix.
\<close>

definition deleteSelfIfNecessary :: "'f Sheet \<Rightarrow> nat \<Rightarrow> 'f Sheet" where
  "deleteSelfIfNecessary s p =
     (let c = heap s ! p in
      if cell_type c \<noteq> cell_transient then s
      else if downstream c = [] then
        s\<lparr>matrix :=
            (case map_of (matrix s) (col (addr c)) of
               None \<Rightarrow> matrix s
             | Some rows \<Rightarrow> AList.update (col (addr c)) (AList.delete (row (addr c)) rows) (matrix s))\<rparr>
      else s)"

text \<open>The index of the first occurrence, as the loop of \<^verbatim>\<open>removeDownstream\<close> finds it.\<close>

primrec firstIndex :: "nat list \<Rightarrow> nat \<Rightarrow> nat option" where
  "firstIndex [] x = None"
| "firstIndex (y # ys) x = (if y = x then Some 0 else map_option Suc (firstIndex ys x))"

text \<open>
  \<^verbatim>\<open>removeDownstream\<close>: the first occurrence is overwritten with the last element and the
  slice is shortened by one; \<^verbatim>\<open>deleteSelfIfNecessary\<close> is deferred and runs in any case.
\<close>

definition removeDownstream :: "'f Sheet \<Rightarrow> nat \<Rightarrow> nat \<Rightarrow> 'f Sheet" where
  "removeDownstream s p c2 =
     deleteSelfIfNecessary
       (case firstIndex (downstream (heap s ! p)) c2 of
          None \<Rightarrow> s
        | Some i \<Rightarrow>
            updCell s p (\<lambda>c. c\<lparr>downstream := butlast ((downstream c)[i := last (downstream c)])\<rparr>))
       p"

subsection \<open>Recalculation\<close>

text \<open>
  A call of \<^verbatim>\<open>Recalculate\<close> returns or panics (when \<^verbatim>\<open>Eval\<close> does); the flag of the result
  says which. Deferred functions run in both cases, so the state is threaded through a
  panic as well. A loop over cells ends at the first call that panics.
\<close>

fun forEach :: "(nat \<Rightarrow> 'f Sheet \<Rightarrow> (bool \<times> 'f Sheet) option) \<Rightarrow> nat list \<Rightarrow> 'f Sheet
    \<Rightarrow> (bool \<times> 'f Sheet) option" where
  "forEach f [] s = Some (False, s)"
| "forEach f (p # ps) s =
     (case f p s of
        None \<Rightarrow> None
      | Some (pn, s') \<Rightarrow> if pn then Some (True, s') else forEach f ps s')"

definition markCycle :: "'f Cell \<Rightarrow> 'f Cell" where
  "markCycle c =
     (if cell_type c = cell_expr then c\<lparr>expErr := Some (Error ''Cyclical equations detected.'')\<rparr> else c)
       \<lparr>content := ''##ERROR''\<rparr>"

text \<open>
  The body of \<^verbatim>\<open>Recalculate\<close> after the flag is set: the evaluation of the formula. It
  yields whether \<^verbatim>\<open>Eval\<close> panicked, and the state.
\<close>

definition evalCell :: "'f floatops \<Rightarrow> 'f Sheet \<Rightarrow> nat \<Rightarrow> bool \<times> 'f Sheet" where
  "evalCell F s p =
     (let c = heap s ! p in
      if cell_type c \<noteq> cell_expr then (False, s)
      else (case exp c of
              None \<Rightarrow> (False, s)
            | Some e \<Rightarrow>
                (case Eval F s e of
                   Panic m \<Rightarrow> (True, s)
                 | Fail err \<Rightarrow> (False, updCell s p (\<lambda>c. c\<lparr>expErr := Some err, content := ''##ERROR''\<rparr>))
                 | Ok f \<Rightarrow>
                     (False, updCell s p (\<lambda>c. c\<lparr>expErr := None, val := f, content := fmtFloat F f\<rparr>)))))"

text \<open>
  \<^verbatim>\<open>Recalculate\<close>. The first argument bounds the depth of nested calls; \<open>None\<close> means that
  the bound was reached. The deferred functions run last-in first-out: the cascade over
  \<^verbatim>\<open>downstream\<close>, (the callback, which is \<^verbatim>\<open>nil\<close>,) and the reset of \<^verbatim>\<open>recalculating\<close>.
\<close>

primrec Recalculate :: "nat \<Rightarrow> 'f floatops \<Rightarrow> nat \<Rightarrow> 'f Sheet \<Rightarrow> (bool \<times> 'f Sheet) option" where
  "Recalculate 0 F p s = None"
| "Recalculate (Suc n) F p s =
     (if recalculating (heap s ! p) then
        (let s1 = updCell s p markCycle in
         if \<not> errCycle (heap s ! p) then
           (case forEach (Recalculate n F) (upstream (heap s1 ! p))
                   (updCell s1 p (\<lambda>c. c\<lparr>errCycle := True\<rparr>)) of
              None \<Rightarrow> None
            | Some (pn, s2) \<Rightarrow> Some (pn, updCell s2 p (\<lambda>c. c\<lparr>errCycle := False\<rparr>)))
         else Some (False, s1))
      else
        (case evalCell F (updCell s p (\<lambda>c. c\<lparr>recalculating := True\<rparr>)) p of
           (pn, s2) \<Rightarrow>
             (case forEach (Recalculate n F) (downstream (heap s2 ! p)) s2 of
                None \<Rightarrow> None
              | Some (pn', s3) \<Rightarrow>
                  Some (pn \<or> pn', updCell s3 p (\<lambda>c. c\<lparr>recalculating := False\<rparr>)))))"

subsection \<open>Setting the content of a cell\<close>

text \<open>Step 1 of \<^verbatim>\<open>(*Cell).SetContent\<close>: leave the downstream lists of the old upstream cells.\<close>

definition detach :: "'f Sheet \<Rightarrow> nat \<Rightarrow> 'f Sheet" where
  "detach s p =
     (if upstream (heap s ! p) \<noteq> [] then
        updCell (foldl (\<lambda>s u. removeDownstream s u p) s (upstream (heap s ! p))) p
          (\<lambda>c. c\<lparr>upstream := []\<rparr>)
      else s)"

text \<open>
  The loop that resolves the referenced addresses: each cell is fetched or created and
  gets \<open>p\<close> appended to its downstream list. It yields the new upstream list.
\<close>

fun attach :: "'f floatops \<Rightarrow> 'f Sheet \<Rightarrow> nat \<Rightarrow> CellAddress list \<Rightarrow> nat list \<times> 'f Sheet" where
  "attach F s p [] = ([], s)"
| "attach F s p (a # as) =
     (case cellOrNewAt F s a of
        (q, s1) \<Rightarrow>
          (case attach F (addDownstream s1 q p) p as of
             (qs, s2) \<Rightarrow> (q # qs, s2)))"

text \<open>
  The body of \<^verbatim>\<open>(*Cell).SetContent\<close> up to its return (\<open>None\<close> only if the parser's depth
  bound were reached, which it is not).
\<close>

definition classify :: "'f floatops \<Rightarrow> 'f Sheet \<Rightarrow> nat \<Rightarrow> string \<Rightarrow> 'f Sheet option" where
  "classify F s p cont =
     (let s1 = detach s p in
      if cont = [] then
        Some (updCell s1 p (\<lambda>c. (NewCell F (addr c))\<lparr>downstream := downstream c\<rparr>))
      else if hd cont = CHR ''='' then
        (let s2 = updCell s1 p (\<lambda>c. c\<lparr>cell_type := cell_expr, expstr := cont, exp := None\<rparr>) in
         case ParseExpression cont of
           None \<Rightarrow> None
         | Some (Inl err) \<Rightarrow> Some (updCell s2 p (\<lambda>c. c\<lparr>expErr := Some err, content := ''##ERROR''\<rparr>))
         | Some (Inr expr) \<Rightarrow>
             (case upstreamAddrs expr of
                Inl err \<Rightarrow> Some (updCell s2 p (\<lambda>c. c\<lparr>expErr := Some err, content := ''##ERROR''\<rparr>))
              | Inr upAddrs \<Rightarrow>
                  (case attach F s2 p upAddrs of
                     (qs, s3) \<Rightarrow> Some (updCell s3 p (\<lambda>c. c\<lparr>upstream := qs, exp := Some expr\<rparr>)))))
      else (case parseFloat F cont of
              Some f \<Rightarrow>
                Some (updCell s1 p (\<lambda>c. c\<lparr>cell_type := cell_val, val := f, content := fmtFloat F f\<rparr>))
            | None \<Rightarrow> Some (updCell s1 p (\<lambda>c. c\<lparr>cell_type := cell_string, content := cont\<rparr>))))"

text \<open>
  The depth bound given to \<^verbatim>\<open>Recalculate\<close>: it is never reached on a well-formed sheet
  (theorem \<open>SetContent_terminates\<close>).
\<close>

definition recalcFuel :: "'f Sheet \<Rightarrow> nat" where
  "recalcFuel s = 2 * length (heap s) + 1"

text \<open>
  \<^verbatim>\<open>(*Cell).SetContent\<close>: the body, then the deferred \<^verbatim>\<open>Recalculate\<close>, then the deferred
  \<^verbatim>\<open>deleteSelfIfNecessary\<close> (also when \<^verbatim>\<open>Recalculate\<close> panicked).
\<close>

definition Cell_SetContent :: "'f floatops \<Rightarrow> 'f Sheet \<Rightarrow> nat \<Rightarrow> string \<Rightarrow> (bool \<times> 'f Sheet) option" where
  "Cell_SetContent F s p cont =
     (case classify F s p cont of
        None \<Rightarrow> None
      | Some s1 \<Rightarrow>
          (case Recalculate (recalcFuel s1) F p s1 of
             None \<Rightarrow> None
           | Some (pn, s2) \<Rightarrow> Some (pn, deleteSelfIfNecessary s2 p)))"

datatype outcome = Returned "error option" | Panicked

text \<open>\<^verbatim>\<open>(*Sheet).SetContent\<close>. \<open>None\<close> stands for a call that does not return.\<close>

definition SetContent :: "'f floatops \<Rightarrow> 'f Sheet \<Rightarrow> string \<Rightarrow> string \<Rightarrow> (outcome \<times> 'f Sheet) option" where
  "SetContent F s a cont =
     (case CellAddr a of
        Inl err \<Rightarrow> Some (Returned (Some err), s)
      | Inr ca \<Rightarrow>
          if cont = [] \<and> cellAt s ca = None then Some (Returned None, s)
          else (case cellOrNewAt F s ca of
                  (p, s1) \<Rightarrow>
                    (case Cell_SetContent F s1 p cont of
                       None \<Rightarrow> None
                     | Some (pn, s2) \<Rightarrow> Some (if pn then Panicked else Returned None, s2))))"

text \<open>
  A sequence of \<^verbatim>\<open>SetContent\<close> calls, run as long as each call returns without error: it
  ends at the first call that returns an error, panics or does not return.
\<close>

fun SetContents :: "'f floatops \<Rightarrow> 'f Sheet \<Rightarrow> (string \<times> string) list \<Rightarrow> (outcome \<times> 'f Sheet) option" where
  "SetContents F s [] = Some (Returned None, s)"
| "SetContents F s ((a, cont) # rest) =
     (case SetContent F s a cont of
        None \<Rightarrow> None
      | Some (r, s') \<Rightarrow> if r = Returned None then SetContents F s' rest else Some (r, s'))"

subsection \<open>Bounds\<close>

definition maxCol :: "'f Sheet \<Rightarrow> CellAddress" where
  "maxCol s =
     foldl (\<lambda>mx k. if LessCol mx \<lparr>col = k, row = 1\<rparr> then \<lparr>col = k, row = 1\<rparr> else mx)
       \<lparr>col = ''A'', row = 1\<rparr> (map fst (matrix s))"

definition maxRow :: "'f Sheet \<Rightarrow> nat" where
  "maxRow s =
     foldl (\<lambda>mx rows. foldl (\<lambda>mx k. if k > mx then k else mx) mx (map fst rows)) 1
       (map snd (matrix s))"

definition MaxAddr :: "'f Sheet \<Rightarrow> CellAddress" where
  "MaxAddr s = (maxCol s)\<lparr>row := maxRow s\<rparr>"

subsection \<open>Export\<close>

text \<open>
  \<^verbatim>\<open>WriteRange\<close>. The inner loop is
  \<^verbatim>\<open>for ; col.LEQCol(end); col, _ = col.NextCol()\<close>: the error of \<^verbatim>\<open>NextCol\<close> is dropped, and
  with it comes the zero \<^verbatim>\<open>CellAddress\<close>. The outer loop is
  \<^verbatim>\<open>for row := start.row; row <= end.row; row++\<close> on \<^verbatim>\<open>uint32\<close>. Both loops may run forever,
  so they take a bound on the number of iterations; \<open>None\<close> means that it was reached.
  The result is the list of records written.
\<close>

definition writeRecord :: "'f floatops \<Rightarrow> 'f Sheet \<Rightarrow> CellAddress \<Rightarrow> string list" where
  "writeRecord F s ca =
     (case cellAt s ca of
        None \<Rightarrow> []
      | Some p \<Rightarrow>
          (let command = EditValue F (heap s ! p) in
           [addrString ca @ '' '' @ showNat (length command) @ '' '' @ command @ [CHR 0x0A]]))"

definition nextColOrZero :: "CellAddress \<Rightarrow> CellAddress" where
  "nextColOrZero ca = (case NextCol ca of Inl err \<Rightarrow> \<lparr>col = [], row = 0\<rparr> | Inr ca' \<Rightarrow> ca')"

primrec WriteRange_cols :: "nat \<Rightarrow> 'f floatops \<Rightarrow> 'f Sheet \<Rightarrow> CellAddress \<Rightarrow> CellAddress \<Rightarrow> string list option" where
  "WriteRange_cols 0 F s ca end = None"
| "WriteRange_cols (Suc n) F s ca end =
     (if LEQCol ca end then
        (case WriteRange_cols n F s (nextColOrZero ca) end of
           None \<Rightarrow> None
         | Some out \<Rightarrow> Some (writeRecord F s ca @ out))
      else Some [])"

primrec WriteRange_rows :: "nat \<Rightarrow> 'f floatops \<Rightarrow> 'f Sheet \<Rightarrow> nat \<Rightarrow> CellAddress \<Rightarrow> CellAddress \<Rightarrow> string list option" where
  "WriteRange_rows 0 F s r start end = None"
| "WriteRange_rows (Suc n) F s r start end =
     (if r \<le> row end then
        (case WriteRange_cols n F s \<lparr>col = col start, row = r\<rparr> end of
           None \<Rightarrow> None
         | Some out \<Rightarrow>
             (case WriteRange_rows n F s ((r + 1) mod 2 ^ 32) start end of
                None \<Rightarrow> None
              | Some out' \<Rightarrow> Some (out @ out')))
      else Some [])"

definition WriteRange :: "nat \<Rightarrow> 'f floatops \<Rightarrow> 'f Sheet \<Rightarrow> CellAddress \<Rightarrow> CellAddress \<Rightarrow> string list option" where
  "WriteRange n F s start end = WriteRange_rows n F s (row start) start end"

subsection \<open>A concrete instance of the number operations\<close>

text \<open>
  To run the model on concrete inputs: the number operations on unsigned integer literals
  of at most 15 digits. \<^verbatim>\<open>float64\<close> represents these integers and their sums exactly, and
  \<^verbatim>\<open>%f\<close> prints them with six zero decimals. (Go also reads signs, fractions and
  exponents; such contents are not used in the evaluations below.)
\<close>

definition litOps :: "int floatops" where
  "litOps =
     \<lparr>parseFloat = (\<lambda>s. if s \<noteq> [] \<and> list_all isDigit s \<and> length s \<le> 15
                          then Some (int (decVal s)) else None),
      fmtFloat = (\<lambda>f. (if f < 0 then ''-'' else []) @ showNat (nat (abs f)) @ ''.000000''),
      fadd = (+),
      fzero = 0\<rparr>"

section \<open>The claims about evaluation, cycles, clearing and export\<close>

lemma Eval_ADD:
  "Eval F s l = Ok lv \<Longrightarrow> Eval F s r = Ok rv \<Longrightarrow> Eval F s (binExpr ADD l r) = Ok (fadd F lv rv)"
  by (simp add: binExpr_def)

text \<open>
  Claim C1 (code defect). The parser produces subtract, multiply and divide nodes, and
  \<^verbatim>\<open>Eval\<close> panics on each of them, whatever the children and the sheet are; only addition
  is evaluated. Setting a cell to \<^verbatim>\<open>=A2-A3\<close> on a fresh sheet panics in the deferred
  \<^verbatim>\<open>Recalculate\<close>.
\<close>

theorem Eval_operators_panic:
  "ParseExpression ''=A2-A3'' = Some (Inr (binExpr SUB (idExpr ''A2'') (idExpr ''A3''))) \<and>
   Eval F s (binExpr SUB l r) = Panic ''SUB NOT IMPLEMENTED'' \<and>
   Eval F s (binExpr MUL l r) = Panic ''MUL NOT IMPLEMENTED'' \<and>
   Eval F s (binExpr DIV l r) = Panic ''DIV NOT IMPLEMENTED'' \<and>
   map_option fst (SetContent F NewSheet ''A1'' ''=A2-A3'') = Some Panicked"
proof -
  have "ParseExpression ''=A2-A3'' = Some (Inr (binExpr SUB (idExpr ''A2'') (idExpr ''A3'')))"
    by code_simp
  moreover have "map_option fst (SetContent F NewSheet ''A1'' ''=A2-A3'') = Some Panicked"
    by code_simp
  ultimately show ?thesis by (simp add: binExpr_def)
qed

text \<open>
  Claim C2. On a fresh sheet, after \<^verbatim>\<open>SetContent("A1", "=A2")\<close>, \<^verbatim>\<open>SetContent("A2", "=A3")\<close>,
  \<^verbatim>\<open>SetContent("A3", "=A1")\<close>, each call having returned without error, \<^verbatim>\<open>ContentAt\<close> of
  each of the three cells is its own address followed by
  \<^verbatim>\<open>: Cyclical equations detected.\<close>
\<close>

theorem three_cycle_contents:
  "map_option (\<lambda>(r, s). (r, ContentAt F s ''A1'', ContentAt F s ''A2'', ContentAt F s ''A3''))
     (SetContents F NewSheet [(''A1'', ''=A2''), (''A2'', ''=A3''), (''A3'', ''=A1'')]) =
   Some (Returned None,
         Inr ''A1: Cyclical equations detected.'',
         Inr ''A2: Cyclical equations detected.'',
         Inr ''A3: Cyclical equations detected.'')"
  by code_simp

text \<open>
  Claim C8 (code defect). A cell that is cleared and has no dependents leaves the row map
  of its column, but the column keeps its (now empty) row map in the matrix, and
  \<^verbatim>\<open>MaxCol\<close> ranges over the columns of the matrix: after \<^verbatim>\<open>FT7\<close> is set and cleared on a
  fresh sheet no cell is left, and the bounds are \<^verbatim>\<open>FT1\<close> instead of the \<^verbatim>\<open>A1\<close> of an
  empty sheet. (The row bound does forget the cell.)
\<close>

theorem cleared_cell_still_in_bounds:
  "MaxAddr (NewSheet :: int Sheet) = \<lparr>col = ''A'', row = 1\<rparr> \<and>
   map_option (\<lambda>(r, s). (r, cellAt s \<lparr>col = ''FT'', row = 7\<rparr>, MaxAddr s))
     (SetContents litOps NewSheet [(''FT7'', ''1'')]) =
   Some (Returned None, Some 0, \<lparr>col = ''FT'', row = 7\<rparr>) \<and>
   map_option (\<lambda>(r, s). (r, cellAt s \<lparr>col = ''FT'', row = 7\<rparr>, MaxAddr s))
     (SetContents litOps NewSheet [(''FT7'', ''1''), (''FT7'', '''')]) =
   Some (Returned None, None, \<lparr>col = ''FT'', row = 1\<rparr>)"
  by code_simp

subsection \<open>Export of the last column\<close>

lemma nextColOrZero_zero: "nextColOrZero \<lparr>col = [], row = 0\<rparr> = \<lparr>col = [], row = 0\<rparr>"
  by (simp add: nextColOrZero_def NextCol_def lastCol_def)

lemma nextColOrZero_last: "nextColOrZero \<lparr>col = ''ZZ'', row = r\<rparr> = \<lparr>col = [], row = 0\<rparr>"
  by (simp add: nextColOrZero_def NextCol_def lastCol_def)

lemma WriteRange_cols_zero:
  "col end = ''ZZ'' \<Longrightarrow> WriteRange_cols n F s \<lparr>col = [], row = 0\<rparr> end = None"
  by (induction n) (simp_all add: LEQCol_def LessCol_def nextColOrZero_zero)

lemma LEQCol_last: "validCol (col ca) \<Longrightarrow> col end = ''ZZ'' \<Longrightarrow> LEQCol ca end"
proof -
  assume v: "validCol (col ca)" and e: "col end = ''ZZ''"
  then have ve: "validCol (col end)" by (simp add: validCol_def isUpper_def)
  show ?thesis
  proof (cases "col ca = col end")
    case True
    then show ?thesis by (simp add: LEQCol_def)
  next
    case False
    with v e colIndex_last[of "col ca"] colIndex_le[of "col ca"] have "colIndex (col ca) < 701"
      by (cases "colIndex (col ca) = 701") auto
    with e LessCol_index[OF v ve] show ?thesis by (simp add: LEQCol_def)
  qed
qed

lemma WriteRange_cols_stuck:
  "validCol (col ca) \<Longrightarrow> col end = ''ZZ'' \<Longrightarrow> WriteRange_cols n F s ca end = None"
proof (induction n arbitrary: ca)
  case 0
  show ?case by simp
next
  case (Suc n)
  have leq: "LEQCol ca end" using Suc.prems by (rule LEQCol_last)
  have "WriteRange_cols n F s (nextColOrZero ca) end = None"
  proof (cases "col ca = ''ZZ''")
    case True
    then have "nextColOrZero ca = \<lparr>col = [], row = 0\<rparr>"
      by (simp add: nextColOrZero_def NextCol_def lastCol_def)
    with Suc.prems(2) show ?thesis by (simp add: WriteRange_cols_zero)
  next
    case False
    from NextCol_valid[OF Suc.prems(1) False, of "row ca"] obtain c' where
      "NextCol \<lparr>col = col ca, row = row ca\<rparr> = Inr \<lparr>col = c', row = row ca\<rparr>" "validCol c'" by blast
    moreover have "\<lparr>col = col ca, row = row ca\<rparr> = ca" by simp
    ultimately have "nextColOrZero ca = \<lparr>col = c', row = row ca\<rparr>" "validCol c'"
      by (simp_all add: nextColOrZero_def)
    with Suc.IH[of "\<lparr>col = c', row = row ca\<rparr>"] Suc.prems(2) show ?thesis by simp
  qed
  with leq show ?case by simp
qed

text \<open>
  Claim C3 (code defect). \<^verbatim>\<open>WriteRange\<close> never returns for a rectangle whose end column is
  \<^verbatim>\<open>ZZ\<close>, whatever the sheet holds: after column \<^verbatim>\<open>ZZ\<close> the dropped error of \<^verbatim>\<open>NextCol\<close>
  leaves the zero address, whose empty column is below \<^verbatim>\<open>ZZ\<close> and is its own successor.
  So a sheet with a populated cell in column \<^verbatim>\<open>ZZ\<close> has no export that covers it.
\<close>

theorem WriteRange_last_column_never_returns:
  "validCol (col start) \<and> row start \<le> row end \<and> col end = ''ZZ'' \<longrightarrow>
   WriteRange n F s start end = None"
proof
  assume h: "validCol (col start) \<and> row start \<le> row end \<and> col end = ''ZZ''"
  show "WriteRange n F s start end = None"
  proof (cases n)
    case 0
    then show ?thesis by (simp add: WriteRange_def)
  next
    case (Suc m)
    from h have "WriteRange_cols m F s \<lparr>col = col start, row = row start\<rparr> end = None"
      by (intro WriteRange_cols_stuck) simp_all
    with h Suc show ?thesis by (simp add: WriteRange_def)
  qed
qed

theorem WriteRange_last_column_never_returns_witness:
  "map_option (\<lambda>(r, s). (r, cellAt s \<lparr>col = ''ZZ'', row = 1\<rparr>,
       WriteRange 100000 litOps s \<lparr>col = ''ZZ'', row = 1\<rparr> \<lparr>col = ''ZZ'', row = 1\<rparr>))
     (SetContents litOps NewSheet [(''ZZ1'', ''1'')]) =
   Some (Returned None, Some 0, None)"
proof -
  have v: "validCol (col \<lparr>col = ''ZZ'', row = 1\<rparr>) \<and> row \<lparr>col = ''ZZ'', row = (1::nat)\<rparr> \<le> row \<lparr>col = ''ZZ'', row = (1::nat)\<rparr>
      \<and> col \<lparr>col = ''ZZ'', row = (1::nat)\<rparr> = ''ZZ''"
    by (simp add: validCol_def isUpper_def)
  have w: "\<And>s. WriteRange 100000 litOps s \<lparr>col = ''ZZ'', row = 1\<rparr> \<lparr>col = ''ZZ'', row = 1\<rparr> = None"
    using WriteRange_last_column_never_returns[of "\<lparr>col = ''ZZ'', row = 1\<rparr>" "\<lparr>col = ''ZZ'', row = 1\<rparr>" 100000 litOps] v
    by blast
  have "map_option (\<lambda>(r, s). (r, cellAt s \<lparr>col = ''ZZ'', row = 1\<rparr>))
     (SetContents litOps NewSheet [(''ZZ1'', ''1'')]) = Some (Returned None, Some 0)"
    by code_simp
  with w show ?thesis by (auto split: option.splits prod.splits)
qed

end
